theory Spec2Isabelle
  imports Main "HOL-Library.Sublist" "HOL-Library.AList" "HOL-Library.List_Lexorder"
    "HOL-Library.Char_ord"
begin

section \<open>Python strings\<close>

text \<open>
  A Python \<open>str\<close> is modelled as a \<open>string\<close>: one \<open>char\<close> per code point, which covers
  the code points below 256.  None of the functions below looks at the numeric value of a
  character other than to compare it with a literal.
\<close>

definition py_strip :: "string \<Rightarrow> string \<Rightarrow> string" where
  \<comment> \<open>\<open>s.strip(chars)\<close>: drop the leading and the trailing characters that are in \<open>chars\<close>.\<close>
  "py_strip chars s =
     rev (dropWhile (\<lambda>c. c \<in> set chars) (rev (dropWhile (\<lambda>c. c \<in> set chars) s)))"

definition slice_index :: "int \<Rightarrow> nat \<Rightarrow> nat" where
  \<comment> \<open>A slice bound \<open>i\<close> on a sequence of length \<open>n\<close>: negative bounds count from the end,
      and the result is clamped to \<open>[0, n]\<close>.\<close>
  "slice_index i n = (if i < 0 then nat (max 0 (int n + i)) else min (nat i) n)"

definition slice_to :: "int \<Rightarrow> 'a list \<Rightarrow> 'a list" where
  \<comment> \<open>\<open>s[:i]\<close>\<close>
  "slice_to i s = take (slice_index i (length s)) s"

definition slice_from :: "int \<Rightarrow> 'a list \<Rightarrow> 'a list" where
  \<comment> \<open>\<open>s[i:]\<close>\<close>
  "slice_from i s = drop (slice_index i (length s)) s"

fun py_split_from :: "string \<Rightarrow> string \<Rightarrow> string \<Rightarrow> string list" where
  "py_split_from sep acc [] = [rev acc]"
| "py_split_from sep acc (x # xs) =
     (if prefix sep (x # xs) then rev acc # py_split_from sep [] (drop (length sep - 1) xs)
      else py_split_from sep (x # acc) xs)"

definition py_split :: "string \<Rightarrow> string \<Rightarrow> string list" where
  \<comment> \<open>\<open>s.split(sep)\<close> for a non-empty separator (both separators of the source are
      literals: \<open>" "\<close> and \<open>" ; "\<close>).  The result is never empty.\<close>
  "py_split sep s = py_split_from sep [] s"

definition first_item :: "string list \<Rightarrow> string" where
  \<comment> \<open>\<open>xs[0]\<close> on the result of \<open>split\<close>, which has at least one item.\<close>
  "first_item xs = (case xs of [] \<Rightarrow> [] | x # _ \<Rightarrow> x)"

section \<open>Brand normalisation: \<open>_process_brand\<close>\<close>

definition strip_chars :: string where
  \<comment> \<open>The argument of \<open>strip\<close> in \<open>_process_brand\<close>, character by character; \<open>\/\<close> is not
      an escape sequence of Python, so it stands for a backslash and a slash.\<close>
  "strip_chars = '' '' @ [CHR 0x22] @ ''.*+,-_!@#$%^&*();'' @ [CHR 0x5C] @ ''/|<>''
     @ [CHR 0x27, CHR 0x09, CHR 0x0A, CHR 0x0D, CHR 0x5C]"

definition process_brand :: "string \<Rightarrow> string" where
  "process_brand brand0 =
     (let brand = py_strip strip_chars brand0;
          brand = (if length brand > 3 \<and> slice_to 3 brand = ''by ''
                   then slice_from 3 brand else brand);
          brand = (if length brand > 4 \<and> slice_from (- 4) brand = ''.com''
                   then slice_to (- 4) brand else brand);
          brand = (if length brand > 4 \<and> slice_to 4 brand = ''www.''
                   then slice_from 4 brand else brand);
          brand = (if length brand > 100
                   then first_item (py_split '' '' brand) else brand)
      in brand)"

subsection \<open>The five steps as the specification words them\<close>

definition spec_strip_set :: "char set" where
  \<comment> \<open>The punctuation and whitespace set of step 1, in the order the specification lists it.\<close>
  "spec_strip_set =
     {CHR 0x22, CHR ''.'', CHR ''*'', CHR ''+'', CHR '','', CHR ''-'', CHR ''_'', CHR ''!'',
      CHR ''@'', CHR ''#'', CHR ''$'', CHR ''%'', CHR ''^'', CHR ''&'', CHR ''*'', CHR ''('',
      CHR '')'', CHR '';'', CHR ''/'', CHR ''|'', CHR ''<'', CHR ''>'', CHR 0x27, CHR 0x09,
      CHR 0x0A, CHR 0x0D, CHR 0x5C, CHR '' ''}"

definition step_strip :: "string \<Rightarrow> string" where
  "step_strip s =
     rev (dropWhile (\<lambda>c. c \<in> spec_strip_set) (rev (dropWhile (\<lambda>c. c \<in> spec_strip_set) s)))"

definition step_by :: "string \<Rightarrow> string" where
  "step_by s = (if length s > 3 \<and> prefix ''by '' s then drop 3 s else s)"

definition step_com :: "string \<Rightarrow> string" where
  "step_com s = (if length s > 4 \<and> suffix ''.com'' s then take (length s - 4) s else s)"

definition step_www :: "string \<Rightarrow> string" where
  "step_www s = (if length s > 4 \<and> prefix ''www.'' s then drop 4 s else s)"

definition step_truncate :: "string \<Rightarrow> string" where
  "step_truncate s = (if length s > 100 then takeWhile (\<lambda>c. c \<noteq> CHR '' '') s else s)"

definition normalize_brand_spec :: "string \<Rightarrow> string" where
  "normalize_brand_spec s = step_truncate (step_www (step_com (step_by (step_strip s))))"

definition brand_settled :: "string \<Rightarrow> bool" where
  \<comment> \<open>No step of \<open>_process_brand\<close> changes the string.\<close>
  "brand_settled r =
     ((r = [] \<or> (hd r \<notin> set strip_chars \<and> last r \<notin> set strip_chars)) \<and>
      \<not> (length r > 3 \<and> take 3 r = ''by '') \<and>
      \<not> (length r > 4 \<and> drop (length r - 4) r = ''.com'') \<and>
      \<not> (length r > 4 \<and> take 4 r = ''www.'') \<and>
      (length r > 100 \<longrightarrow> CHR '' '' \<notin> set r))"

section \<open>Errors as values\<close>

text \<open>
  The exceptions the modelled code can raise.  A function that can raise returns
  \<open>py_error + 'a\<close>, with \<open>Inl\<close> for the exception.  \<open>OSError\<close> stands for a failed download or
  file read.
\<close>

datatype py_error =
  AttributeError | KeyError | IndexError | TypeError | ValueError | UnboundLocalError
  | AssertionError | OSError

definition bind_err :: "'e + 'a \<Rightarrow> ('a \<Rightarrow> 'e + 'b) \<Rightarrow> 'e + 'b" where
  "bind_err m f = (case m of Inl e \<Rightarrow> Inl e | Inr x \<Rightarrow> f x)"

fun collect_err :: "('e + 'a) list \<Rightarrow> 'e + 'a list" where
  "collect_err [] = Inr []"
| "collect_err (m # ms) =
     (case m of Inl e \<Rightarrow> Inl e
      | Inr x \<Rightarrow> (case collect_err ms of Inl e \<Rightarrow> Inl e | Inr xs \<Rightarrow> Inr (x # xs)))"

section \<open>Record linking: \<open>_process_raw\<close>\<close>

text \<open>
  The three category sets are Python sets.  Python iterates a set in an order of its own; the
  lists below keep the order of the source text, and the linking results below hold for any
  frames, whatever the order they were read in.
\<close>

definition REVIEW_CATEGORIES :: "string list" where
  "REVIEW_CATEGORIES =
     [''Amazon_Fashion'', ''All_Beauty'', ''Appliances'', ''Arts_Crafts_and_Sewing'',
      ''Automotive'', ''Books'', ''CDs_and_Vinyl'', ''Cell_Phones_and_Accessories'',
      ''Clothing_Shoes_and_Jewelry'', ''Digital_Music'', ''Electronics'', ''Gift_Cards'',
      ''Grocery_and_Gourmet_Food'', ''Home_and_Kitchen'', ''Industrial_and_Scientific'',
      ''Kindle_Store'', ''Luxury_Beauty'', ''Magazine_Subscriptions'', ''Movies_and_TV'',
      ''Musical_Instruments'', ''Office_Products'', ''Patio_Lawn_and_Garden'', ''Pet_Supplies'',
      ''Prime_Pantry'', ''Software'', ''Sports_and_Outdoors'', ''Tools_and_Home_Improvement'',
      ''Toys_and_Games'', ''Video_Games'']"

definition QA_CATEGORIES :: "string list" where
  "QA_CATEGORIES =
     [''Appliances'', ''Arts_Crafts_and_Sewing'', ''Automotive'', ''Baby'', ''Beauty'',
      ''Cell_Phones_and_Accessories'', ''Clothing_Shoes_and_Jewelry'', ''Electronics'',
      ''Grocery_and_Gourmet_Food'', ''Health_and_Personal_Care'', ''Home_and_Kitchen'',
      ''Musical_Instruments'', ''Office_Products'', ''Patio_Lawn_and_Garden'', ''Pet_Supplies'',
      ''Sports_and_Outdoors'', ''Tools_and_Home_Improvement'', ''Toys_and_Games'',
      ''Video_Games'']"

definition COMMON :: "string list" where
  "COMMON =
     [''Appliances'', ''Arts_Crafts_and_Sewing'', ''Automotive'',
      ''Cell_Phones_and_Accessories'', ''Clothing_Shoes_and_Jewelry'', ''Electronics'',
      ''Grocery_and_Gourmet_Food'', ''Home_and_Kitchen'', ''Musical_Instruments'',
      ''Office_Products'', ''Patio_Lawn_and_Garden'', ''Pet_Supplies'', ''Sports_and_Outdoors'',
      ''Tools_and_Home_Improvement'', ''Toys_and_Games'', ''Video_Games'']"

definition link_columns :: "string list" where
  "link_columns = [''also_buy'', ''also_view'']"

definition review_columns :: "string list" where
  "review_columns =
     [''reviewerID'', ''summary'', ''reviewText'', ''vote'', ''overall'', ''verified'',
      ''reviewTime'']"

definition qa_columns :: "string list" where
  "qa_columns = [''questionType'', ''answerType'', ''question'', ''answer'', ''answerTime'']"

definition meta_columns :: "string list" where
  "meta_columns =
     [''asin'', ''title'', ''global_category'', ''category'', ''price'', ''brand'', ''feature'',
      ''rank'', ''details'', ''description'']"

text \<open>
  A data frame: its column names and its rows.  A row is the value of its \<open>asin\<close> column, the
  natural key, with the rest of the row, whose type \<open>'a\<close> is left open: linking looks at the
  key only.
\<close>

record 'a frame =
  columns :: "string list"
  rows :: "(string \<times> 'a) list"

definition select_columns :: "string list \<Rightarrow> 'a frame \<Rightarrow> py_error + 'a frame" where
  \<comment> \<open>\<open>df[cols]\<close>: \<open>KeyError\<close> when a column is missing.\<close>
  "select_columns cols df =
     (if set cols \<subseteq> set (columns df) then Inr (df\<lparr>columns := cols\<rparr>) else Inl KeyError)"

definition pd_concat :: "'a frame list \<Rightarrow> py_error + 'a frame" where
  \<comment> \<open>\<open>pd.concat(dfs)\<close>: \<open>ValueError\<close> on an empty list.\<close>
  "pd_concat dfs =
     (if dfs = [] then Inl ValueError
      else Inr \<lparr>columns = remdups (concat (map columns dfs)), rows = concat (map rows dfs)\<rparr>)"

definition insert_column :: "string \<Rightarrow> 'a frame \<Rightarrow> py_error + 'a frame" where
  \<comment> \<open>\<open>df.insert(0, c, value)\<close>: \<open>ValueError\<close> when the column exists.\<close>
  "insert_column c df =
     (if c \<in> set (columns df) then Inl ValueError else Inr (df\<lparr>columns := c # columns df\<rparr>))"

fun keep_first :: "string list \<Rightarrow> (string \<times> 'a) list \<Rightarrow> (string \<times> 'a) list" where
  "keep_first seen [] = []"
| "keep_first seen (r # rs) =
     (if fst r \<in> set seen then keep_first seen rs else r # keep_first (fst r # seen) rs)"

definition drop_duplicates :: "'a frame \<Rightarrow> 'a frame" where
  \<comment> \<open>\<open>df.drop_duplicates(subset="asin", keep="first")\<close>\<close>
  "drop_duplicates df = df\<lparr>rows := keep_first [] (rows df)\<rparr>"

definition merge_on_asin :: "'a frame \<Rightarrow> 'b frame \<Rightarrow> ('a \<times> 'b) frame" where
  \<comment> \<open>\<open>l.merge(r, left_on="asin", right_on="asin")\<close>: the inner join.\<close>
  "merge_on_asin l r =
     \<lparr>columns = remdups (columns l @ columns r),
      rows = concat (map (\<lambda>(k, a). map (\<lambda>(k', b). (k, (a, b)))
                                       (filter (\<lambda>(k', b). k' = k) (rows r))) (rows l))\<rparr>"

definition np_unique :: "string list \<Rightarrow> string list" where
  \<comment> \<open>\<open>np.unique\<close>: the distinct values, sorted.\<close>
  "np_unique xs = sort (remdups xs)"

definition isin :: "string list \<Rightarrow> 'a frame \<Rightarrow> 'a frame" where
  \<comment> \<open>\<open>df[df["asin"].isin(keys)]\<close>\<close>
  "isin keys df = df\<lparr>rows := filter (\<lambda>(k, a). k \<in> set keys) (rows df)\<rparr>"

definition get_map_step ::
  "(string \<times> 'a) list \<Rightarrow> nat \<Rightarrow> (string \<rightharpoonup> nat) \<times> (nat \<rightharpoonup> string)
     \<Rightarrow> (string \<rightharpoonup> nat) \<times> (nat \<rightharpoonup> string)" where
  "get_map_step rs idx maps =
     (case maps of (asin2id, id2asin) \<Rightarrow>
        (asin2id(fst (rs ! idx) \<mapsto> idx), id2asin(idx \<mapsto> fst (rs ! idx))))"

definition get_map :: "'a frame \<Rightarrow> (string \<rightharpoonup> nat) \<times> (nat \<rightharpoonup> string)" where
  "get_map df = fold (get_map_step (rows df)) [0..<length (rows df)] (Map.empty, Map.empty)"

text \<open>
  What \<open>_process_raw\<close> holds after \<open>get_map\<close>: the two id maps and the three reduced frames.
  \<open>reset_index\<close> makes the position of a row of the reduced metadata its index.
\<close>

record 'a linked =
  asin2id :: "string \<rightharpoonup> nat"
  id2asin :: "nat \<rightharpoonup> string"
  df_meta_reduced :: "'a frame"
  df_review_reduced :: "'a frame"
  df_qa_reduced :: "'a frame"

definition link_records :: "'a frame \<Rightarrow> 'a frame \<Rightarrow> 'a frame \<Rightarrow> py_error + 'a linked" where
  "link_records df_qa df_review df_ucsd_meta0 =
     (let df_ucsd_meta = drop_duplicates df_ucsd_meta0 in
      bind_err (select_columns (meta_columns @ link_columns) df_ucsd_meta) (\<lambda>df_meta.
        let df_review_meta = merge_on_asin df_review df_meta;
            unique_asin = np_unique (map fst (rows df_review_meta));
            qa_reduced = isin unique_asin df_qa;
            review_reduced = isin unique_asin df_review;
            meta_reduced = isin unique_asin df_meta;
            (a2i, i2a) = get_map meta_reduced
        in Inr \<lparr>asin2id = a2i, id2asin = i2a, df_meta_reduced = meta_reduced,
                 df_review_reduced = review_reduced, df_qa_reduced = qa_reduced\<rparr>))"

text \<open>
  The head of \<open>_process_raw\<close>: the category lists, with the \<open>assert\<close> on the branch without
  \<open>"all"\<close> (as run by an interpreter that keeps assertions).
\<close>

definition select_categories :: "string list \<Rightarrow> py_error + (string list \<times> string list)" where
  "select_categories categories =
     (if ''all'' \<in> set categories then Inr (REVIEW_CATEGORIES, QA_CATEGORIES)
      else if card (set categories - set COMMON) = 0 then Inr (categories, categories)
      else Inl AssertionError)"

text \<open>
  The outside world of \<open>_process_raw\<close>: whether \<open>node_info.pkl\<close> exists, and the download and
  read of the files of a category, which may fail.
\<close>

record 'a sources =
  processed_exists :: bool
  read_qa :: "string \<Rightarrow> py_error + 'a frame"
  read_review :: "string \<Rightarrow> py_error + 'a frame"
  read_meta :: "string \<Rightarrow> py_error + 'a frame"

text \<open>
  \<open>_process_raw\<close> up to \<open>get_map\<close>.  With the processed files on disk it loads them; otherwise
  it reads the frames and links them.  Building the node records and the product graph from
  the linked frames comes after and is not part of this function's model.
\<close>

datatype 'a raw_result = LoadedProcessed | Linked "'a linked"

definition process_raw :: "'a sources \<Rightarrow> string list \<Rightarrow> py_error + 'a raw_result" where
  "process_raw src categories =
     bind_err (select_categories categories) (\<lambda>(review_categories, qa_categories).
       if processed_exists src then Inr LoadedProcessed
       else
         bind_err (collect_err (map (read_qa src) qa_categories)) (\<lambda>qa_frames.
         bind_err (pd_concat qa_frames) (\<lambda>qa_all.
         bind_err (select_columns (''asin'' # qa_columns) qa_all) (\<lambda>df_qa.
         bind_err (collect_err (map (read_review src) review_categories)) (\<lambda>review_frames.
         bind_err (pd_concat review_frames) (\<lambda>review_all.
         bind_err (select_columns (''asin'' # review_columns) review_all) (\<lambda>df_review.
         bind_err (collect_err (map (\<lambda>category.
                      bind_err (read_meta src category) (insert_column ''global_category''))
                    review_categories)) (\<lambda>meta_df_lst.
         bind_err (pd_concat meta_df_lst) (\<lambda>df_ucsd_meta.
         bind_err (link_records df_qa df_review df_ucsd_meta) (\<lambda>l. Inr (Linked l)))))))))))"

definition first_pos :: "'a \<Rightarrow> 'a list \<Rightarrow> nat" where
  \<comment> \<open>The position of the first occurrence of \<open>k\<close> in \<open>xs\<close>.\<close>
  "first_pos k xs = length (takeWhile (\<lambda>x. x \<noteq> k) xs)"

text \<open>Example frames and sources.\<close>

definition example_meta :: "nat frame" where
  "example_meta =
     \<lparr>columns = meta_columns @ link_columns,
      rows = [(''c'', 0), (''b'', 1), (''a'', 2), (''b'', 3)]\<rparr>"

definition example_review :: "nat frame" where
  "example_review =
     \<lparr>columns = ''asin'' # review_columns,
      rows = [(''b'', 10), (''a'', 11), (''b'', 12), (''q'', 13)]\<rparr>"

definition example_qa :: "nat frame" where
  "example_qa = \<lparr>columns = ''asin'' # qa_columns, rows = [(''z'', 20), (''b'', 21)]\<rparr>"

definition offline_sources :: "nat sources" where
  "offline_sources =
     \<lparr>processed_exists = False, read_qa = (\<lambda>c. Inl OSError), read_review = (\<lambda>c. Inl OSError),
      read_meta = (\<lambda>c. Inl OSError)\<rparr>"

section \<open>Node records and the knowledge base\<close>

text \<open>
  The values of a node record, as the specification's data model lists them: a scalar (null,
  a number or a string), a list of strings, a list of structured records (a review or a Q&A
  pair, each a mapping from column name to scalar), and a nested record (\<open>details\<close>).  The null
  marker is \<open>None\<close> or the float \<open>nan\<close>; other floats are not modelled.  A dict is an
  association list.
\<close>

datatype scalar = SNone | SNaN | SInt int | SStr string

type_synonym struct = "(string \<times> scalar) list"

datatype attr =
  Scalar scalar
  | StrList "string list"
  | Records "struct list"
  | Nested "(string \<times> attr) list"

type_synonym node_rec = "(string \<times> attr) list"

text \<open>
  The processed data: \<open>node_info\<close> is a dict whose keys are the dense ids \<open>0..<n\<close> in
  insertion order, as \<open>construct_raw_node_info\<close> builds it from \<open>id2asin\<close>; it is modelled as the
  list of its values, so that an id is a position.  The tensors are lists, the two type
  dictionaries association lists in insertion order.
\<close>

record processed =
  node_info :: "node_rec list"
  edge_index :: "nat list \<times> nat list"
  edge_types :: "nat list"
  edge_type_dict :: "(nat \<times> string) list"
  node_type_dict :: "(nat \<times> string) list"
  node_types :: "nat list"

text \<open>
  The knowledge base object.  Four of its operations are not code of \<open>amazon.py\<close> and are
  fields of the record: \<open>get_neighbor_nodes\<close> of the base class \<open>SemiStructureKB\<close>, which may
  raise; \<open>compact_text\<close>; Python's formatting of a value that is not a scalar; and
  \<open>np.argsort(-np.array(scores))\<close>, whose order among equal scores is numpy's choice.
\<close>

record kb = processed +
  max_entries :: int
  get_neighbor_nodes :: "nat \<Rightarrow> string \<Rightarrow> py_error + nat list"
  compact_text :: "string \<Rightarrow> string"
  format_container :: "attr \<Rightarrow> string"
  argsort_desc :: "int list \<Rightarrow> nat list"

subsection \<open>Python operations on values\<close>

definition NL :: string where
  "NL = [CHR 0x0A]"

definition DQ :: string where
  "DQ = [CHR 0x22]"

fun str_of_nat :: "nat \<Rightarrow> string" where
  "str_of_nat n =
     (if n < 10 then [char_of (48 + n)] else str_of_nat (n div 10) @ [char_of (48 + n mod 10)])"

declare str_of_nat.simps [simp del]

definition str_of_int :: "int \<Rightarrow> string" where
  "str_of_int i = (if i < 0 then CHR ''-'' # str_of_nat (nat (- i)) else str_of_nat (nat i))"

definition str_of_scalar :: "scalar \<Rightarrow> string" where
  \<comment> \<open>\<open>str(v)\<close>, and \<open>{v}\<close> in an f-string.\<close>
  "str_of_scalar v =
     (case v of SNone \<Rightarrow> ''None'' | SNaN \<Rightarrow> ''nan'' | SInt i \<Rightarrow> str_of_int i | SStr s \<Rightarrow> s)"

definition format_attr :: "kb \<Rightarrow> attr \<Rightarrow> string" where
  \<comment> \<open>\<open>{v}\<close> in an f-string, for an attribute value.\<close>
  "format_attr k v = (case v of Scalar s \<Rightarrow> str_of_scalar s | _ \<Rightarrow> format_container k v)"

text \<open>What iterating or indexing a value yields: a string or a structured record.\<close>

datatype elem = EStr string | ERec struct

definition py_len :: "attr \<Rightarrow> py_error + nat" where
  "py_len v =
     (case v of
        Scalar (SStr s) \<Rightarrow> Inr (length s)
      | Scalar _ \<Rightarrow> Inl TypeError
      | StrList xs \<Rightarrow> Inr (length xs)
      | Records rs \<Rightarrow> Inr (length rs)
      | Nested d \<Rightarrow> Inl TypeError)"

definition py_iter :: "attr \<Rightarrow> py_error + elem list" where
  \<comment> \<open>\<open>for x in v\<close>; a string yields its characters.\<close>
  "py_iter v =
     (case v of
        Scalar (SStr s) \<Rightarrow> Inr (map (\<lambda>c. EStr [c]) s)
      | Scalar _ \<Rightarrow> Inl TypeError
      | StrList xs \<Rightarrow> Inr (map EStr xs)
      | Records rs \<Rightarrow> Inr (map ERec rs)
      | Nested d \<Rightarrow> Inl TypeError)"

definition py_index :: "attr \<Rightarrow> nat \<Rightarrow> py_error + elem" where
  \<comment> \<open>\<open>v[i]\<close> for a non-negative integer \<open>i\<close>.\<close>
  "py_index v i =
     (case py_iter v of
        Inl e \<Rightarrow> Inl e
      | Inr xs \<Rightarrow> if i < length xs then Inr (xs ! i) else Inl IndexError)"

definition item :: "elem \<Rightarrow> string \<Rightarrow> py_error + scalar" where
  \<comment> \<open>\<open>x[key]\<close> for a string key.\<close>
  "item x key =
     (case x of
        EStr s \<Rightarrow> Inl TypeError
      | ERec r \<Rightarrow> (case map_of r key of None \<Rightarrow> Inl KeyError | Some v \<Rightarrow> Inr v))"

definition lower_char :: "char \<Rightarrow> char" where
  "lower_char c =
     (let n = of_char c :: nat in
      if (65 \<le> n \<and> n \<le> 90) \<or> (192 \<le> n \<and> n \<le> 222 \<and> n \<noteq> 215) then char_of (n + 32) else c)"

definition lower :: "elem \<Rightarrow> py_error + string" where
  \<comment> \<open>\<open>x.lower()\<close>\<close>
  "lower x = (case x of EStr s \<Rightarrow> Inr (map lower_char s) | ERec r \<Rightarrow> Inl AttributeError)"

fun contains :: "string \<Rightarrow> string \<Rightarrow> bool" where
  \<comment> \<open>\<open>sub in s\<close> for strings\<close>
  "contains sub [] = (sub = [])"
| "contains sub (x # xs) = (prefix sub (x # xs) \<or> contains sub xs)"

fun intercalate :: "string \<Rightarrow> string list \<Rightarrow> string" where
  "intercalate sep [] = []"
| "intercalate sep [x] = x"
| "intercalate sep (x # y # ys) = x @ sep @ intercalate sep (y # ys)"

definition elem_str :: "elem \<Rightarrow> py_error + string" where
  "elem_str x = (case x of EStr s \<Rightarrow> Inr s | ERec r \<Rightarrow> Inl TypeError)"

definition join :: "string \<Rightarrow> attr \<Rightarrow> py_error + string" where
  \<comment> \<open>\<open>sep.join(v)\<close>: every item must be a string.\<close>
  "join sep v =
     bind_err (py_iter v) (\<lambda>xs.
     bind_err (collect_err (map elem_str xs)) (\<lambda>ss. Inr (intercalate sep ss)))"

definition is_space :: "char \<Rightarrow> bool" where
  "is_space c =
     (let n = of_char c :: nat in (9 \<le> n \<and> n \<le> 13) \<or> (28 \<le> n \<and> n \<le> 32) \<or> n = 133 \<or> n = 160)"

definition is_digit :: "char \<Rightarrow> bool" where
  "is_digit c = (let n = of_char c :: nat in 48 \<le> n \<and> n \<le> 57)"

fun digits_value :: "string \<Rightarrow> nat \<Rightarrow> bool \<Rightarrow> nat option" where
  \<comment> \<open>Decimal digits, with single underscores between digits.\<close>
  "digits_value [] acc after_digit = (if after_digit then Some acc else None)"
| "digits_value (c # cs) acc after_digit =
     (if is_digit c then digits_value cs (10 * acc + (of_char c - 48)) True
      else if c = CHR ''_'' \<and> after_digit \<and> cs \<noteq> [] \<and> is_digit (hd cs)
        then digits_value cs acc False
      else None)"

definition int_max_str_digits :: nat where
  \<comment> \<open>\<open>sys.get_int_max_str_digits()\<close>, as CPython sets it by default.\<close>
  "int_max_str_digits = 4300"

definition py_int :: "string \<Rightarrow> py_error + int" where
  \<comment> \<open>\<open>int(s)\<close>: surrounding whitespace, an optional sign, decimal digits; CPython refuses
      more digits than \<open>int_max_str_digits\<close> with a \<open>ValueError\<close>.\<close>
  "py_int s0 =
     (let s = rev (dropWhile is_space (rev (dropWhile is_space s0)));
          (neg, ds) = (case s of
                         c # cs \<Rightarrow> if c = CHR ''-'' then (True, cs)
                                   else if c = CHR ''+'' then (False, cs) else (False, s)
                       | [] \<Rightarrow> (False, s))
      in case digits_value ds 0 False of
           None \<Rightarrow> Inl ValueError
         | Some n \<Rightarrow>
             if length (filter is_digit ds) > int_max_str_digits then Inl ValueError
             else Inr (if neg then - int n else int n))"

definition pd_isnull :: "scalar \<Rightarrow> bool" where
  "pd_isnull v = (case v of SNone \<Rightarrow> True | SNaN \<Rightarrow> True | _ \<Rightarrow> False)"

definition remove_commas :: "scalar \<Rightarrow> py_error + string" where
  \<comment> \<open>\<open>v.replace(",", "")\<close>\<close>
  "remove_commas v =
     (case v of SStr s \<Rightarrow> Inr (filter (\<lambda>c. c \<noteq> CHR '','') s) | _ \<Rightarrow> Inl AttributeError)"

subsection \<open>Node objects\<close>

text \<open>
  Modelled from the specification: \<open>Node\<close> and \<open>register_node\<close> of \<open>src.tools.node\<close> are not
  among the source files.  The specification has a node object expose the attributes of its
  node record by name, present or absent (\<open>hasattr\<close>, \<open>getattr\<close>), and a nested record expose
  its sub-fields the same way.  A node object is the association list of its attributes;
  \<open>register_node\<close> sets one attribute per key of the record.
\<close>

type_synonym node = "(string \<times> attr) list"

definition Node :: node where
  "Node = []"

definition register_node :: "node \<Rightarrow> node_rec \<Rightarrow> node" where
  "register_node n info = fold (\<lambda>(key, v) n. AList.update key v n) info n"

definition hasattr :: "node \<Rightarrow> string \<Rightarrow> bool" where
  "hasattr n name = (map_of n name \<noteq> None)"

definition getattr :: "node \<Rightarrow> string \<Rightarrow> py_error + attr" where
  "getattr n name = (case map_of n name of None \<Rightarrow> Inl AttributeError | Some v \<Rightarrow> Inr v)"

definition getattr_of :: "attr \<Rightarrow> string \<Rightarrow> py_error + attr" where
  \<comment> \<open>An attribute of an attribute: only a nested record has any.\<close>
  "getattr_of v name = (case v of Nested d \<Rightarrow> getattr d name | _ \<Rightarrow> Inl AttributeError)"

definition split_dimensions :: "node \<Rightarrow> py_error + (string \<times> string)" where
  \<comment> \<open>\<open>dimensions, weight = node.details.dictionary.product_dimensions.split(" ; ")\<close>\<close>
  "split_dimensions n =
     bind_err (getattr n ''details'') (\<lambda>details.
     bind_err (getattr_of details ''dictionary'') (\<lambda>dictionary.
     bind_err (getattr_of dictionary ''product_dimensions'') (\<lambda>pd.
       case pd of
         Scalar (SStr s) \<Rightarrow>
           (case py_split '' ; '' s of
              [dimensions, weight] \<Rightarrow> Inr (dimensions, weight)
            | _ \<Rightarrow> Inl ValueError)
       | _ \<Rightarrow> Inl AttributeError)))"

subsection \<open>\<open>__getitem__\<close>\<close>

definition enrich :: "node option \<Rightarrow> node_rec \<Rightarrow> py_error + node_rec" where
  \<comment> \<open>The body of the \<open>try\<close> of \<open>__getitem__\<close>.  Its first argument is the local variable
      \<open>node\<close> as the body finds it: \<open>None\<close> when no value has been assigned to it yet.\<close>
  "enrich local_node info =
     (case local_node of
        None \<Rightarrow> Inl UnboundLocalError
      | Some n \<Rightarrow>
          bind_err (split_dimensions n) (\<lambda>(dimensions, weight).
            Inr (AList.update ''weight'' (Scalar (SStr weight))
                  (AList.update ''dimensions'' (Scalar (SStr dimensions)) info))))"

definition getitem :: "kb \<Rightarrow> nat \<Rightarrow> py_error + (node \<times> kb)" where
  \<comment> \<open>Returns the node object and the knowledge base with \<open>node_info[idx]\<close> as the call leaves
      it.  \<open>node\<close> is assigned after the \<open>try\<close>, so the body of the \<open>try\<close> finds it unassigned.\<close>
  "getitem k idx =
     (if idx < length (node_info k) then
        let info = node_info k ! idx;
            info' = (case enrich None info of Inl e \<Rightarrow> info | Inr enriched \<Rightarrow> enriched);
            n = register_node Node info'
        in Inr (n, k\<lparr>node_info := (node_info k)[idx := info']\<rparr>)
      else Inl KeyError)"

definition getitem_node :: "kb \<Rightarrow> nat \<Rightarrow> py_error + node" where
  \<comment> \<open>\<open>self[idx]\<close> where only the node is used.  The rendering functions below do not thread
      the knowledge base through their calls of \<open>__getitem__\<close>: it returns the one it was given
      (lemma \<open>getitem_unchanged\<close>).\<close>
  "getitem_node k idx = bind_err (getitem k idx) (\<lambda>(n, k'). Inr n)"

subsection \<open>The capped loops\<close>

text \<open>
  The four loops over reviews and Q&A pairs have one shape:
  \<^verbatim>\<open>for i, x in enumerate(xs): text += entry(i, x); if i > self.max_entries: break\<close>
  The function returns the entries the loop appends, in order.
\<close>

fun capped_entries ::
  "int \<Rightarrow> (nat \<Rightarrow> 'a \<Rightarrow> py_error + string) \<Rightarrow> nat \<Rightarrow> 'a list \<Rightarrow> py_error + string list" where
  "capped_entries cap entry i [] = Inr []"
| "capped_entries cap entry i (x # xs) =
     bind_err (entry i x) (\<lambda>e.
       if int i > cap then Inr [e]
       else bind_err (capped_entries cap entry (Suc i) xs) (\<lambda>es. Inr (e # es)))"

definition score :: "elem \<Rightarrow> py_error + int" where
  \<comment> \<open>\<open>0 if pd.isnull(review["vote"]) else int(review["vote"].replace(",", ""))\<close>\<close>
  "score review =
     bind_err (item review ''vote'') (\<lambda>vote.
       if pd_isnull vote then Inr 0 else bind_err (remove_commas vote) py_int)"

definition ranks :: "kb \<Rightarrow> attr \<Rightarrow> py_error + nat list" where
  "ranks k reviews =
     bind_err (py_iter reviews) (\<lambda>xs.
     bind_err (collect_err (map score xs)) (\<lambda>scores. Inr (argsort_desc k scores)))"

subsection \<open>\<open>get_doc_info\<close>\<close>

definition doc_review_entry :: "attr \<Rightarrow> nat \<Rightarrow> nat \<Rightarrow> py_error + string" where
  "doc_review_entry reviews i review_idx =
     bind_err (py_index reviews review_idx) (\<lambda>review.
     bind_err (item review ''summary'') (\<lambda>summary.
     bind_err (item review ''reviewText'') (\<lambda>reviewText.
       Inr (''#'' @ str_of_nat (review_idx + 1) @ '':'' @ NL @
            ''summary: '' @ str_of_scalar summary @ NL @
            ''text: '' @ DQ @ str_of_scalar reviewText @ DQ @ NL))))"

definition doc_review_entries :: "kb \<Rightarrow> attr \<Rightarrow> py_error + string list" where
  "doc_review_entries k reviews =
     bind_err (ranks k reviews) (capped_entries (max_entries k) (doc_review_entry reviews) 0)"

definition doc_qa_entry :: "nat \<Rightarrow> elem \<Rightarrow> py_error + string" where
  "doc_qa_entry qa_idx qa =
     bind_err (item qa ''question'') (\<lambda>question.
     bind_err (item qa ''answer'') (\<lambda>answer.
       Inr (''#'' @ str_of_nat (qa_idx + 1) @ '':'' @ NL @
            ''question: '' @ DQ @ str_of_scalar question @ DQ @ NL @
            ''answer: '' @ DQ @ str_of_scalar answer @ DQ @ NL)))"

definition doc_qa_entries :: "kb \<Rightarrow> attr \<Rightarrow> py_error + string list" where
  "doc_qa_entries k qas =
     bind_err (py_iter qas) (capped_entries (max_entries k) doc_qa_entry 0)"

fun doc_feature_lines :: "nat \<Rightarrow> elem list \<Rightarrow> py_error + string list" where
  "doc_feature_lines feature_idx [] = Inr []"
| "doc_feature_lines feature_idx (feature # rest) =
     (if feature = EStr [] then doc_feature_lines (Suc feature_idx) rest
      else
        bind_err (lower feature) (\<lambda>lowered.
          if contains ''asin'' lowered then doc_feature_lines (Suc feature_idx) rest
          else
            bind_err (elem_str feature) (\<lambda>f.
            bind_err (doc_feature_lines (Suc feature_idx) rest) (\<lambda>ls.
              Inr ((''#'' @ str_of_nat (feature_idx + 1) @ '': '' @ f @ NL) # ls)))))"

definition brand_line :: "kb \<Rightarrow> node \<Rightarrow> py_error + string" where
  "brand_line k n =
     (if hasattr n ''brand''
      then bind_err (getattr n ''brand'') (\<lambda>b. Inr (''- brand: '' @ format_attr k b @ NL))
      else Inr [])"

definition dimension_lines :: "node \<Rightarrow> string" where
  \<comment> \<open>The \<open>try\<close> of \<open>get_doc_info\<close>: any exception leaves the document as it was.\<close>
  "dimension_lines n =
     (case split_dimensions n of
        Inl e \<Rightarrow> []
      | Inr (dimensions, weight) \<Rightarrow>
          ''- dimensions: '' @ dimensions @ NL @ ''- weight: '' @ weight @ NL)"

definition description_line :: "node \<Rightarrow> py_error + string" where
  "description_line n =
     bind_err (getattr n ''description'') (\<lambda>d.
     bind_err (py_len d) (\<lambda>len.
       if len \<noteq> 0 then
         bind_err (join '' '' d) (\<lambda>joined.
           let description = py_strip '' '' joined in
           Inr (if length description > 0 then ''- description: '' @ description @ NL else []))
       else Inr []))"

definition feature_text :: "node \<Rightarrow> py_error + string" where
  "feature_text n =
     bind_err (getattr n ''feature'') (\<lambda>fs.
     bind_err (py_len fs) (\<lambda>len.
       if len \<noteq> 0 then
         bind_err (py_iter fs) (\<lambda>xs.
         bind_err (doc_feature_lines 0 xs) (\<lambda>ls. Inr (''- features: '' @ NL @ concat ls)))
       else Inr []))"

definition review_text :: "kb \<Rightarrow> node \<Rightarrow> py_error + string" where
  "review_text k n =
     bind_err (getattr n ''review'') (\<lambda>reviews.
     bind_err (py_len reviews) (\<lambda>len.
       if len \<noteq> 0 then
         bind_err (doc_review_entries k reviews) (\<lambda>es. Inr (''- reviews: '' @ NL @ concat es))
       else Inr []))"

definition qa_text :: "kb \<Rightarrow> node \<Rightarrow> py_error + string" where
  "qa_text k n =
     bind_err (getattr n ''qa'') (\<lambda>qas.
     bind_err (py_len qas) (\<lambda>len.
       if len \<noteq> 0 then
         bind_err (doc_qa_entries k qas) (\<lambda>es. Inr (''- Q&A: '' @ NL @ concat es))
       else Inr []))"

definition neighbor_title :: "kb \<Rightarrow> nat \<Rightarrow> nat \<Rightarrow> py_error + string" where
  \<comment> \<open>\<open>f"#{idx + 1}: " + self[i].title + "\n"\<close>: the title is concatenated, so it must be a
      string.\<close>
  "neighbor_title k idx i =
     bind_err (getitem_node k i) (\<lambda>n.
     bind_err (getattr n ''title'') (\<lambda>t.
       case t of
         Scalar (SStr s) \<Rightarrow> Inr (''#'' @ str_of_nat (idx + 1) @ '': '' @ s @ NL)
       | _ \<Rightarrow> Inl TypeError))"

definition neighbor_titles :: "kb \<Rightarrow> nat list \<Rightarrow> py_error + string" where
  "neighbor_titles k ns =
     bind_err (collect_err (map (\<lambda>(idx, i). neighbor_title k idx i) (zip [0..<length ns] ns)))
       (\<lambda>ls. Inr (concat ls))"

definition has_brand_line :: "kb \<Rightarrow> nat list \<Rightarrow> py_error + string" where
  \<comment> \<open>\<open>str_has_brand\<close>: empty, or the line of the first brand neighbour.\<close>
  "has_brand_line k n_has_brand =
     (case n_has_brand of
        [] \<Rightarrow> Inr []
      | b # bs \<Rightarrow>
          bind_err (getitem_node k b) (\<lambda>n.
          bind_err (getattr n ''brand_name'') (\<lambda>name.
            Inr (''  brand: '' @ format_attr k name @ NL))))"

definition get_rel_info :: "kb \<Rightarrow> nat \<Rightarrow> py_error + string" where
  \<comment> \<open>With the default arguments; the result of \<open>rel_type_lst()\<close> is not used.\<close>
  "get_rel_info k idx =
     bind_err (get_neighbor_nodes k idx ''also_buy'') (\<lambda>n_also_buy.
     bind_err (get_neighbor_nodes k idx ''also_view'') (\<lambda>n_also_view.
     bind_err (get_neighbor_nodes k idx ''has_brand'') (\<lambda>n_has_brand.
     bind_err (neighbor_titles k n_also_buy) (\<lambda>str_also_buy.
     bind_err (neighbor_titles k n_also_view) (\<lambda>str_also_view.
     bind_err (has_brand_line k n_has_brand) (\<lambda>str_has_brand.
       let doc = (if length str_also_buy \<noteq> 0
                  then ''  products also purchased: '' @ NL @ str_also_buy else []);
           doc = doc @ (if length str_also_view \<noteq> 0
                  then ''  products also viewed: '' @ NL @ str_also_view else []);
           doc = doc @ (if length n_has_brand \<noteq> 0 then str_has_brand else [])
       in Inr (if length doc \<noteq> 0 then ''- relations:'' @ NL @ doc else doc)))))))"

definition node_type_label :: "kb \<Rightarrow> nat \<Rightarrow> py_error + string" where
  \<comment> \<open>\<open>self.node_type_dict[int(self.node_types[idx])]\<close>\<close>
  "node_type_label k idx =
     (if idx < length (node_types k) then
        (case map_of (node_type_dict k) (node_types k ! idx) of
           None \<Rightarrow> Inl KeyError
         | Some label \<Rightarrow> Inr label)
      else Inl IndexError)"

definition get_doc_info :: "kb \<Rightarrow> nat \<Rightarrow> bool \<Rightarrow> bool \<Rightarrow> py_error + string" where
  "get_doc_info k idx add_rel compact =
     bind_err (node_type_label k idx) (\<lambda>label.
       if label = ''brand'' then
         bind_err (getitem_node k idx) (\<lambda>n.
         bind_err (getattr n ''brand_name'') (\<lambda>name. Inr (''brand name: '' @ format_attr k name)))
       else
         bind_err (getitem_node k idx) (\<lambda>n.
         bind_err (getattr n ''title'') (\<lambda>title.
         bind_err (brand_line k n) (\<lambda>brand.
         bind_err (description_line n) (\<lambda>description.
         bind_err (feature_text n) (\<lambda>features.
         bind_err (review_text k n) (\<lambda>reviews.
         bind_err (qa_text k n) (\<lambda>qa.
         bind_err (if add_rel then get_rel_info k idx else Inr []) (\<lambda>rel.
           let doc = ''- product: '' @ format_attr k title @ NL @ brand @ dimension_lines n
                     @ description @ features @ reviews @ qa @ rel
           in Inr (if compact then compact_text k doc else doc))))))))))"

subsection \<open>\<open>get_chunk_info\<close>\<close>

fun chunk_features :: "elem list \<Rightarrow> py_error + string list" where
  "chunk_features [] = Inr []"
| "chunk_features (feature # rest) =
     (if feature = EStr [] then chunk_features rest
      else
        bind_err (lower feature) (\<lambda>lowered.
          if contains ''asin'' lowered then chunk_features rest
          else
            bind_err (elem_str feature) (\<lambda>f.
            bind_err (chunk_features rest) (\<lambda>fs. Inr (f # fs)))))"

definition chunk_review_entry :: "attr \<Rightarrow> nat \<Rightarrow> nat \<Rightarrow> py_error + string" where
  "chunk_review_entry reviews i review_idx =
     bind_err (py_index reviews review_idx) (\<lambda>review.
     bind_err (item review ''summary'') (\<lambda>summary.
     bind_err (item review ''reviewText'') (\<lambda>reviewText.
       Inr (''The review '' @ DQ @ str_of_scalar summary @ DQ @
            ''states that '' @ DQ @ str_of_scalar reviewText @ DQ @ ''. ''))))"

definition chunk_review_entries :: "kb \<Rightarrow> attr \<Rightarrow> py_error + string list" where
  "chunk_review_entries k reviews =
     bind_err (ranks k reviews) (capped_entries (max_entries k) (chunk_review_entry reviews) 0)"

definition chunk_qa_entry :: "nat \<Rightarrow> elem \<Rightarrow> py_error + string" where
  "chunk_qa_entry i question =
     bind_err (item question ''question'') (\<lambda>q.
     bind_err (item question ''answer'') (\<lambda>a.
       Inr (''The question is '' @ DQ @ str_of_scalar q @ DQ @ '', '' @
            ''and the answer is '' @ DQ @ str_of_scalar a @ DQ @ ''. '')))"

definition chunk_qa_entries :: "kb \<Rightarrow> attr \<Rightarrow> py_error + string list" where
  "chunk_qa_entries k qas =
     bind_err (py_iter qas) (capped_entries (max_entries k) chunk_qa_entry 0)"

definition get_chunk_info :: "kb \<Rightarrow> nat \<Rightarrow> string \<Rightarrow> py_error + attr" where
  \<comment> \<open>The result is a string (a scalar) but in the last branch, which returns the attribute
      as it is.\<close>
  "get_chunk_info k idx attribute =
     bind_err (getitem_node k idx) (\<lambda>n.
       if \<not> hasattr n attribute then Inr (Scalar (SStr []))
       else
         bind_err (getitem_node k idx) (\<lambda>n.
         bind_err (getattr n attribute) (\<lambda>node_attr.
           if contains ''feature'' attribute then
             bind_err (py_len node_attr) (\<lambda>len.
             bind_err (if len \<noteq> 0 then bind_err (py_iter node_attr) chunk_features
                       else Inr []) (\<lambda>features.
               Inr (Scalar (SStr (intercalate '' '' features)))))
           else if contains ''review'' attribute then
             bind_err (py_len node_attr) (\<lambda>len.
             bind_err (if len \<noteq> 0 then chunk_review_entries k node_attr else Inr []) (\<lambda>es.
               Inr (Scalar (SStr (concat es)))))
           else if contains ''qa'' attribute then
             bind_err (py_len node_attr) (\<lambda>len.
             bind_err (if len \<noteq> 0 then chunk_qa_entries k node_attr else Inr []) (\<lambda>es.
               Inr (Scalar (SStr (concat es)))))
           else
             bind_err (if contains ''description'' attribute then py_len node_attr else Inr 0)
               (\<lambda>len.
                 if contains ''description'' attribute \<and> len \<noteq> 0
                 then bind_err (join '' '' node_attr) (\<lambda>s. Inr (Scalar (SStr s)))
                 else Inr node_attr))))"

subsection \<open>Well-formed node records\<close>








subsection \<open>An example knowledge base\<close>

definition stable_argsort_desc :: "int list \<Rightarrow> nat list" where
  \<comment> \<open>An instance of \<open>np.argsort(-np.array(scores))\<close>: the stable one.\<close>
  "stable_argsort_desc scores =
     map snd (sort_key (\<lambda>(s, i). - s) (zip scores [0..<length scores]))"

definition sample_review :: "string \<Rightarrow> string \<Rightarrow> scalar \<Rightarrow> struct" where
  "sample_review summary txt vote =
     [(''reviewerID'', SStr ''R''), (''summary'', SStr summary), (''reviewText'', SStr txt),
      (''vote'', vote), (''overall'', SInt 5), (''verified'', SNone), (''reviewTime'', SNone)]"

definition sample_question :: "string \<Rightarrow> string \<Rightarrow> struct" where
  "sample_question q a =
     [(''questionType'', SNone), (''answerType'', SNone), (''question'', SStr q),
      (''answer'', SStr a), (''answerTime'', SNone)]"

definition tent :: node_rec where
  "tent =
     [(''review'', Records [sample_review ''s1'' ''t1'' (SStr ''3''),
                            sample_review ''s2'' ''t2'' SNaN,
                            sample_review ''s3'' ''t3'' (SStr ''1,000''),
                            sample_review ''s4'' ''t4'' (SStr ''7'')]),
      (''qa'', Records [sample_question ''q1'' ''a1'', sample_question ''q2'' ''a2'',
                        sample_question ''q3'' ''a3'', sample_question ''q4'' ''a4'']),
      (''asin'', Scalar (SStr ''A0'')),
      (''title'', Scalar (SStr ''Tent'')),
      (''brand'', Scalar (SStr ''Acme'')),
      (''feature'', StrList [''light'', '''', ''see ASIN A0'']),
      (''details'', Nested [(''dictionary'',
          Nested [(''product_dimensions'', Scalar (SStr ''2 x 3 in ; 5 lb''))])]),
      (''description'', StrList [''A'', ''tent.''])]"

definition lamp :: node_rec where
  "lamp =
     [(''review'', Records []), (''qa'', Records []),
      (''asin'', Scalar (SStr ''A1'')),
      (''title'', Scalar (SStr ''Lamp'')),
      (''feature'', StrList [''ASIN: A1'', '''']),
      (''details'', Scalar SNaN),
      (''description'', StrList [])]"

definition mug :: node_rec where
  "mug =
     [(''review'', Records [sample_review ''ok'' ''fine'' (SStr ''abc'')]), (''qa'', Records []),
      (''asin'', Scalar (SStr ''A2'')),
      (''title'', Scalar (SStr ''Mug'')),
      (''feature'', StrList []),
      (''details'', Scalar SNaN),
      (''description'', StrList [])]"


definition acme :: node_rec where
  "acme = [(''brand_name'', Scalar (SStr ''Acme''))]"

definition example_neighbors :: "nat \<Rightarrow> string \<Rightarrow> py_error + nat list" where
  "example_neighbors idx rel =
     (if idx = 0 \<and> rel = ''also_buy'' then Inr [1, 2]
      else if idx = 0 \<and> rel = ''has_brand'' then Inr [3]
      else if rel \<in> {''also_buy'', ''also_view'', ''has_brand''} then Inr []
      else Inl KeyError)"

definition example_kb :: kb where
  "example_kb =
     \<lparr>node_info = [tent, lamp, mug, acme],
      edge_index = ([0, 0, 0], [1, 2, 3]),
      edge_types = [0, 0, 2],
      edge_type_dict = [(0, ''also_buy''), (1, ''also_view''), (2, ''has_brand'')],
      node_type_dict = [(0, ''product''), (1, ''brand'')],
      node_types = [0, 0, 0, 1],
      max_entries = 1,
      get_neighbor_nodes = example_neighbors,
      compact_text = (\<lambda>doc. doc),
      format_container = (\<lambda>v. ''<object>''),
      argsort_desc = stable_argsort_desc\<rparr>"


section \<open>Meta links: \<open>post_process\<close>\<close>

text \<open>
  \<open>post_process\<close> works on the processed data in place.  The numpy arrays \<open>values\<close>,
  \<open>indices\<close> and \<open>unique\<close> are lists: \<open>np.unique\<close> gives the distinct values in ascending
  order, \<open>values == unique_j\<close> compares position by position, and \<open>enumerate(node_info.values())\<close>
  counts the node records in the order of their ids.  \<open>values\<close> is an array of fixed-width
  strings, padded with NUL characters: an element read back from it has lost the NUL characters
  at its end.  The two type dictionaries are association lists, \<open>len\<close> is their length and an
  assignment to a key is \<open>AList.update\<close>.
\<close>

definition brand_of :: "attr \<Rightarrow> py_error + string" where
  \<comment> \<open>\<open>self._process_brand(v)\<close>: \<open>v.strip\<close> exists for a string only.\<close>
  "brand_of v = (case v of Scalar (SStr s) \<Rightarrow> Inr (process_brand s) | _ \<Rightarrow> Inl AttributeError)"

definition has_key :: "string \<Rightarrow> node_rec \<Rightarrow> bool" where
  \<comment> \<open>\<open>link_type in node_info_i.keys()\<close>\<close>
  "has_key link_type info = (map_of info link_type \<noteq> None)"

definition link_value :: "string \<Rightarrow> node_rec \<Rightarrow> py_error + string" where
  \<comment> \<open>\<open>self._process_brand(node_info_i[link_type])\<close>, whatever the link type.\<close>
  "link_value link_type info =
     (case map_of info link_type of None \<Rightarrow> Inl KeyError | Some v \<Rightarrow> brand_of v)"

definition np_str :: "string \<Rightarrow> string" where
  \<comment> \<open>A string as an element of a numpy array of strings gives it back: without the NUL
      characters at its end.\<close>
  "np_str s = rev (dropWhile (\<lambda>c. c = CHR 0x00) (rev s))"

definition link_values :: "string \<Rightarrow> node_rec list \<Rightarrow> py_error + string list" where
  \<comment> \<open>\<open>values = np.array([self._process_brand(node_info_i[link_type]) for ...])\<close>\<close>
  "link_values link_type infos =
     bind_err (collect_err (map (link_value link_type) (filter (has_key link_type) infos)))
       (\<lambda>vals. Inr (map np_str vals))"

definition link_indices :: "string \<Rightarrow> node_rec list \<Rightarrow> nat list" where
  "link_indices link_type infos =
     map fst (filter (\<lambda>(idx, info). has_key link_type info) (zip [0..<length infos] infos))"

definition set_node :: "node_rec list \<Rightarrow> nat \<Rightarrow> node_rec \<Rightarrow> node_rec list" where
  \<comment> \<open>\<open>node_info[key] = record\<close> on the dense dict: a key in range replaces, the next key
      appends.  \<open>post_process\<close> only ever sets the next key.\<close>
  "set_node infos key entry =
     (if key < length infos then infos[key := entry] else infos @ [entry])"

definition ids_of :: "string list \<Rightarrow> nat list \<Rightarrow> string \<Rightarrow> nat list" where
  \<comment> \<open>\<open>indices[np.array(values == unique_j)]\<close>\<close>
  "ids_of vals indices u = map snd (filter (\<lambda>(v, idx). v = u) (zip vals indices))"

fun add_meta_nodes ::
  "string \<Rightarrow> nat \<Rightarrow> nat \<Rightarrow> string list \<Rightarrow> nat list \<Rightarrow> nat \<Rightarrow> string list \<Rightarrow> processed \<Rightarrow> processed"
  where
  \<comment> \<open>The loop \<open>for j, unique_j in enumerate(unique)\<close>, from position \<open>j\<close> on; \<open>t\<close> is the
      edge type \<open>i + n_e_types\<close>.\<close>
  "add_meta_nodes link_type cur_n_nodes t vals indices j [] p = p"
| "add_meta_nodes link_type cur_n_nodes t vals indices j (unique_j # rest) p =
     (let ids = ids_of vals indices unique_j;
          p' = p\<lparr>node_info := set_node (node_info p) (cur_n_nodes + j)
                                [(link_type @ ''_name'', Scalar (SStr unique_j))],
                 edge_index := (fst (edge_index p) @ ids,
                                snd (edge_index p) @ replicate (length ids) (cur_n_nodes + j)),
                 edge_types := edge_types p @ replicate (length ids) t\<rparr>
      in add_meta_nodes link_type cur_n_nodes t vals indices (Suc j) rest p')"

definition add_link_type :: "nat \<Rightarrow> nat \<Rightarrow> nat \<Rightarrow> string \<Rightarrow> processed \<Rightarrow> py_error + processed"
  where
  \<comment> \<open>The body of the loop \<open>for i, link_type in enumerate(meta_link_types)\<close>.\<close>
  "add_link_type n_e_types n_n_types i link_type p =
     bind_err (link_values link_type (node_info p)) (\<lambda>vals.
       let indices = link_indices link_type (node_info p);
           cur_n_nodes = length (node_info p);
           p = p\<lparr>node_type_dict := AList.update (n_n_types + i) link_type (node_type_dict p),
                 edge_type_dict :=
                   AList.update (n_e_types + i) (''has_'' @ link_type) (edge_type_dict p)\<rparr>;
           unique = np_unique vals;
           p = add_meta_nodes link_type cur_n_nodes (i + n_e_types) vals indices 0 unique p
       in Inr (p\<lparr>node_types := node_types p @ replicate (length unique) (n_n_types + i)\<rparr>))"

fun post_loop :: "nat \<Rightarrow> nat \<Rightarrow> nat \<Rightarrow> string list \<Rightarrow> processed \<Rightarrow> py_error + processed" where
  "post_loop n_e_types n_n_types i [] p = Inr p"
| "post_loop n_e_types n_n_types i (link_type # rest) p =
     bind_err (add_link_type n_e_types n_n_types i link_type p)
       (post_loop n_e_types n_n_types (Suc i) rest)"

definition post_process :: "processed \<Rightarrow> string list \<Rightarrow> py_error + processed" where
  \<comment> \<open>The result; saving it under \<open>cache_path\<close> does not change it.\<close>
  "post_process raw_info meta_link_types =
     post_loop (length (edge_type_dict raw_info)) (length (node_type_dict raw_info)) 0
       meta_link_types raw_info"

definition edges :: "processed \<Rightarrow> (nat \<times> nat \<times> nat) list" where
  \<comment> \<open>The edges as triples: source, destination, edge type.\<close>
  "edges p = zip (fst (edge_index p)) (zip (snd (edge_index p)) (edge_types p))"

definition out_edges :: "processed \<Rightarrow> nat \<Rightarrow> string \<Rightarrow> nat list" where
  \<comment> \<open>The destinations of the edges that leave \<open>src\<close> and whose type has the given label.\<close>
  "out_edges p src label =
     map (\<lambda>(s, d, t). d)
       (filter (\<lambda>(s, d, t). s = src \<and> map_of (edge_type_dict p) t = Some label) (edges p))"

definition contiguous :: "(nat \<times> string) list \<Rightarrow> bool" where
  \<comment> \<open>A type dictionary whose keys are \<open>0..<n\<close>, each once.\<close>
  "contiguous d = (distinct (map fst d) \<and> set (map fst d) = {..<length d})"

definition raw_graph_ok :: "processed \<Rightarrow> bool" where
  \<comment> \<open>What \<open>_process_raw\<close> returns: contiguous type dictionaries, as many node types as
      nodes, edge arrays of one length, and edge types of the dictionary.\<close>
  "raw_graph_ok p =
     (contiguous (edge_type_dict p) \<and> contiguous (node_type_dict p) \<and>
      length (node_types p) = length (node_info p) \<and>
      length (fst (edge_index p)) = length (snd (edge_index p)) \<and>
      length (snd (edge_index p)) = length (edge_types p) \<and>
      list_all (\<lambda>t. t < length (edge_type_dict p)) (edge_types p))"

definition example_raw :: processed where
  "example_raw =
     \<lparr>node_info = [tent, lamp, mug, (''brand'', Scalar (SStr ''by Acme'')) # lamp],
      edge_index = ([0, 0, 1], [1, 2, 0]),
      edge_types = [0, 0, 1],
      edge_type_dict = [(0, ''also_buy''), (1, ''also_view'')],
      node_type_dict = [(0, ''product'')],
      node_types = [0, 0, 0, 0]\<rparr>"

definition nul_raw :: processed where
  \<comment> \<open>Two products of one brand, written once with a NUL character at its end.\<close>
  "nul_raw =
     \<lparr>node_info = [tent, (''brand'', Scalar (SStr (''Acme'' @ [CHR 0x00]))) # lamp],
      edge_index = ([0], [1]),
      edge_types = [0],
      edge_type_dict = [(0, ''also_buy''), (1, ''also_view'')],
      node_type_dict = [(0, ''product'')],
      node_types = [0, 0]\<rparr>"

definition string_valued :: "string list \<Rightarrow> node_rec list \<Rightarrow> bool" where
  \<comment> \<open>Every attribute of one of the given names is a string, in every node record.\<close>
  "string_valued kinds infos =
     list_all (\<lambda>info. list_all (\<lambda>k. case map_of info k of
                                        None \<Rightarrow> True
                                      | Some v \<Rightarrow> \<not> isl (brand_of v))
                                kinds) infos"

section \<open>Properties of brand normalisation\<close>

lemma set_strip_chars: "set strip_chars = spec_strip_set"
  by (auto simp: strip_chars_def spec_strip_set_def)

lemma py_strip_step: "py_strip strip_chars s = step_strip s"
  by (simp add: py_strip_def step_strip_def set_strip_chars)

lemma slice_to_nonneg: "0 \<le> i \<Longrightarrow> slice_to i s = take (nat i) s"
  by (simp add: slice_to_def slice_index_def min_def)

lemma slice_from_nonneg: "0 \<le> i \<Longrightarrow> slice_from i s = drop (nat i) s"
  by (simp add: slice_from_def slice_index_def min_def)

lemma slice_to_negative:
  "i < 0 \<Longrightarrow> nat (- i) \<le> length s \<Longrightarrow> slice_to i s = take (length s - nat (- i)) s"
  by (auto simp add: slice_to_def slice_index_def intro!: arg_cong2[where f=take])

lemma slice_from_negative:
  "i < 0 \<Longrightarrow> nat (- i) \<le> length s \<Longrightarrow> slice_from i s = drop (length s - nat (- i)) s"
  by (auto simp add: slice_from_def slice_index_def intro!: arg_cong2[where f=drop])

lemma first_item_split_from:
  "first_item (py_split_from [c] acc s) = rev acc @ takeWhile (\<lambda>x. x \<noteq> c) s"
  by (induction s arbitrary: acc) (auto simp: first_item_def)

lemma py_split_from_nonempty: "py_split_from sep acc s \<noteq> []"
  by (induction sep acc s rule: py_split_from.induct) auto

lemma take_is_prefix:
  "n = length p \<Longrightarrow> n \<le> length s \<Longrightarrow> take n s = p \<longleftrightarrow> prefix p s"
  by (metis append_take_drop_id prefix_def append_eq_conv_conj)

lemma drop_is_suffix:
  "n = length p \<Longrightarrow> n \<le> length s \<Longrightarrow> drop (length s - n) s = p \<longleftrightarrow> suffix p s"
  by (metis suffix_def suffix_drop length_append add_diff_cancel_right' append_eq_conv_conj)

lemma process_brand_steps: "process_brand s = normalize_brand_spec s"
proof -
  have by_step: "(if length b > 3 \<and> slice_to 3 b = ''by '' then slice_from 3 b else b) = step_by b"
    for b
    using take_is_prefix[of 3 "''by ''" b]
    by (cases "3 < length b") (simp_all add: step_by_def slice_to_nonneg slice_from_nonneg)
  have com_step:
    "(if length b > 4 \<and> slice_from (- 4) b = ''.com'' then slice_to (- 4) b else b) = step_com b"
    for b
    using drop_is_suffix[of 4 "''.com''" b]
    by (cases "4 < length b") (simp_all add: step_com_def slice_to_negative slice_from_negative)
  have www_step:
    "(if length b > 4 \<and> slice_to 4 b = ''www.'' then slice_from 4 b else b) = step_www b"
    for b
    using take_is_prefix[of 4 "''www.''" b]
    by (cases "4 < length b") (simp_all add: step_www_def slice_to_nonneg slice_from_nonneg)
  have trunc_step:
    "(if length b > 100 then first_item (py_split '' '' b) else b) = step_truncate b" for b
    by (simp add: step_truncate_def py_split_def first_item_split_from)
  show ?thesis
    unfolding process_brand_def normalize_brand_spec_def Let_def py_strip_step
      by_step com_step www_step trunc_step ..
qed

lemma dropWhile_same_length: "length (dropWhile P xs) = length xs \<Longrightarrow> dropWhile P xs = xs"
  by (metis dropWhile_eq_drop drop0 takeWhile_dropWhile_id length_append add_cancel_right_left)

lemma step_strip_length: "length (step_strip s) \<le> length s"
  unfolding step_strip_def by (metis length_rev length_dropWhile_le le_trans)

lemma step_strip_parts:
  assumes "length (step_strip s) = length s"
  shows "dropWhile (\<lambda>c. c \<in> spec_strip_set) s = s"
    and "dropWhile (\<lambda>c. c \<in> spec_strip_set) (rev s) = rev s"
proof -
  let ?P = "\<lambda>c. c \<in> spec_strip_set"
  have 1: "length (dropWhile ?P (rev (dropWhile ?P s))) \<le> length (dropWhile ?P s)"
    by (metis length_dropWhile_le length_rev)
  have 2: "length (dropWhile ?P s) \<le> length s"
    by (rule length_dropWhile_le)
  from assms 1 2 have e1: "length (dropWhile ?P s) = length s"
    and e2: "length (dropWhile ?P (rev (dropWhile ?P s))) = length (rev (dropWhile ?P s))"
    by (simp_all add: step_strip_def)
  from e1 show d1: "dropWhile ?P s = s"
    by (rule dropWhile_same_length)
  from e2 have "dropWhile ?P (rev (dropWhile ?P s)) = rev (dropWhile ?P s)"
    by (rule dropWhile_same_length)
  then show "dropWhile ?P (rev s) = rev s"
    by (simp add: d1)
qed

lemma step_strip_same_length: "length (step_strip s) = length s \<Longrightarrow> step_strip s = s"
  using step_strip_parts[of s] by (simp add: step_strip_def)

lemma step_strip_fix:
  "step_strip s = s \<longleftrightarrow> (s = [] \<or> (hd s \<notin> spec_strip_set \<and> last s \<notin> spec_strip_set))"
proof (cases "s = []")
  case True
  then show ?thesis by (simp add: step_strip_def)
next
  case False
  show ?thesis
  proof
    assume "step_strip s = s"
    then have "length (step_strip s) = length s" by simp
    from step_strip_parts[OF this] False
    show "s = [] \<or> (hd s \<notin> spec_strip_set \<and> last s \<notin> spec_strip_set)"
      by (auto simp: dropWhile_eq_self_iff hd_rev)
  next
    assume "s = [] \<or> (hd s \<notin> spec_strip_set \<and> last s \<notin> spec_strip_set)"
    with False have h: "hd s \<notin> spec_strip_set" and l: "last s \<notin> spec_strip_set"
      by auto
    from h False have d1: "dropWhile (\<lambda>c. c \<in> spec_strip_set) s = s"
      by (simp add: dropWhile_eq_self_iff)
    from l False have d2: "dropWhile (\<lambda>c. c \<in> spec_strip_set) (rev s) = rev s"
      by (simp add: dropWhile_eq_self_iff hd_rev)
    show "step_strip s = s"
      by (simp add: step_strip_def d1 d2)
  qed
qed

lemma step_by_length: "length (step_by s) \<le> length s"
  by (simp add: step_by_def)

lemma step_com_length: "length (step_com s) \<le> length s"
  by (simp add: step_com_def)

lemma step_www_length: "length (step_www s) \<le> length s"
  by (simp add: step_www_def)

lemma step_truncate_length: "length (step_truncate s) \<le> length s"
  by (simp add: step_truncate_def length_takeWhile_le)

lemma step_by_fix: "step_by s = s \<longleftrightarrow> \<not> (length s > 3 \<and> prefix ''by '' s)"
  by (auto simp: step_by_def dest: arg_cong[where f=length])

lemma step_com_fix: "step_com s = s \<longleftrightarrow> \<not> (length s > 4 \<and> suffix ''.com'' s)"
  by (auto simp: step_com_def dest: arg_cong[where f=length])

lemma step_www_fix: "step_www s = s \<longleftrightarrow> \<not> (length s > 4 \<and> prefix ''www.'' s)"
  by (auto simp: step_www_def dest: arg_cong[where f=length])

lemma step_truncate_fix:
  "step_truncate s = s \<longleftrightarrow> (length s > 100 \<longrightarrow> CHR '' '' \<notin> set s)"
  by (auto simp: step_truncate_def)

lemma step_by_same_length: "length (step_by s) = length s \<Longrightarrow> step_by s = s"
  by (auto simp: step_by_def split: if_splits)

lemma step_com_same_length: "length (step_com s) = length s \<Longrightarrow> step_com s = s"
  by (auto simp: step_com_def split: if_splits)

lemma step_www_same_length: "length (step_www s) = length s \<Longrightarrow> step_www s = s"
  by (auto simp: step_www_def split: if_splits)

lemma normalize_brand_spec_fix:
  "normalize_brand_spec r = r \<longleftrightarrow>
     step_strip r = r \<and> step_by r = r \<and> step_com r = r \<and> step_www r = r \<and> step_truncate r = r"
proof
  assume e: "normalize_brand_spec r = r"
  let ?a = "step_strip r"
  let ?b = "step_by ?a"
  let ?c = "step_com ?b"
  let ?d = "step_www ?c"
  have "length (step_truncate ?d) = length r"
    using e by (simp add: normalize_brand_spec_def)
  moreover have "length (step_truncate ?d) \<le> length ?d" by (rule step_truncate_length)
  moreover have "length ?d \<le> length ?c" by (rule step_www_length)
  moreover have "length ?c \<le> length ?b" by (rule step_com_length)
  moreover have "length ?b \<le> length ?a" by (rule step_by_length)
  moreover have "length ?a \<le> length r" by (rule step_strip_length)
  ultimately have la: "length ?a = length r" and lb: "length ?b = length ?a"
    and lc: "length ?c = length ?b" and ld: "length ?d = length ?c"
    by linarith+
  from la have a: "?a = r" by (rule step_strip_same_length)
  from lb have b: "?b = ?a" by (rule step_by_same_length)
  from lc have c: "?c = ?b" by (rule step_com_same_length)
  from ld have d: "?d = ?c" by (rule step_www_same_length)
  from a b have b': "step_by r = r" by simp
  from b' a c have c': "step_com r = r" by simp
  from c' b' a d have d': "step_www r = r" by simp
  from e have "step_truncate r = r"
    by (simp add: normalize_brand_spec_def a b' c' d')
  with a b' c' d'
  show "step_strip r = r \<and> step_by r = r \<and> step_com r = r \<and> step_www r = r \<and> step_truncate r = r"
    by simp
next
  assume "step_strip r = r \<and> step_by r = r \<and> step_com r = r \<and> step_www r = r \<and> step_truncate r = r"
  then show "normalize_brand_spec r = r"
    by (simp add: normalize_brand_spec_def)
qed

lemma process_brand_fix: "process_brand r = r \<longleftrightarrow> brand_settled r"
proof -
  have p3: "length r > 3 \<Longrightarrow> (take 3 r = ''by '') = prefix ''by '' r"
    using take_is_prefix[of 3 "''by ''" r] by simp
  have p4: "length r > 4 \<Longrightarrow> (take 4 r = ''www.'') = prefix ''www.'' r"
    using take_is_prefix[of 4 "''www.''" r] by simp
  have s4: "length r > 4 \<Longrightarrow> (drop (length r - 4) r = ''.com'') = suffix ''.com'' r"
    using drop_is_suffix[of 4 "''.com''" r] by simp
  show ?thesis
    unfolding process_brand_steps normalize_brand_spec_fix brand_settled_def step_strip_fix
      step_by_fix step_com_fix step_www_fix step_truncate_fix set_strip_chars
    using p3 p4 s4 by blast
qed

text \<open>
  C4, as amended.  \<open>_process_brand\<close> is not idempotent on every string: each step runs once, so
  a prefix, suffix or strip character uncovered by an earlier step survives the first pass and
  is removed by the second.  Applying it twice gives the same result as applying it once
  exactly when the first result is settled: it neither starts nor ends with a strip
  character, does not start with \<open>"by "\<close> (length above 3) or \<open>"www."\<close> (length above 4), does
  not end with \<open>".com"\<close> (length above 4), and holds no space if it is longer than 100.
\<close>

theorem process_brand_idempotent_iff_settled:
  "process_brand (process_brand s) = process_brand s \<longleftrightarrow> brand_settled (process_brand s)"
  by (rule process_brand_fix)

theorem process_brand_idempotent_iff_settled_witness:
  "brand_settled (process_brand ''by Acme Corp'') \<and>
   process_brand (process_brand ''by Acme Corp'') = process_brand ''by Acme Corp''"
proof -
  have "process_brand (process_brand ''by Acme Corp'') = process_brand ''by Acme Corp''"
    by code_simp
  with process_brand_idempotent_iff_settled[of "''by Acme Corp''"] show ?thesis
    by simp
qed

theorem process_brand_not_idempotent:
  "process_brand (process_brand ''by by x'') \<noteq> process_brand ''by by x''"
  by code_simp

text \<open>
  C6.  \<open>_process_brand\<close> is the composition of the five steps of the specification, in their
  order and with their length guards: strip the punctuation and whitespace set, drop the
  prefix \<open>"by "\<close> when the length exceeds 3, drop the suffix \<open>".com"\<close> when it exceeds 4, drop
  the prefix \<open>"www."\<close> when it exceeds 4, and keep the first space-delimited token when it
  exceeds 100.  It maps \<open>by Acme Corp\<close> to \<open>Acme Corp\<close>, \<open>www.acme.com\<close> to \<open>acme\<close> and
  \<open>Acme!!\<close> in double quotes between two spaces on each side to \<open>Acme\<close>.
\<close>

theorem process_brand_refines_spec:
  "process_brand s = step_truncate (step_www (step_com (step_by (step_strip s)))) \<and>
   process_brand ''by Acme Corp'' = ''Acme Corp'' \<and>
   process_brand ''www.acme.com'' = ''acme'' \<and>
   process_brand ([CHR '' '', CHR '' '', CHR 0x22] @ ''Acme!!'' @ [CHR 0x22, CHR '' '', CHR '' ''])
     = ''Acme''"
proof -
  have "process_brand s = step_truncate (step_www (step_com (step_by (step_strip s))))"
    by (simp add: process_brand_steps normalize_brand_spec_def)
  moreover have "process_brand ''by Acme Corp'' = ''Acme Corp''"
    by code_simp
  moreover have "process_brand ''www.acme.com'' = ''acme''"
    by code_simp
  moreover have
    "process_brand ([CHR '' '', CHR '' '', CHR 0x22] @ ''Acme!!'' @ [CHR 0x22, CHR '' '', CHR '' ''])
       = ''Acme''"
    by code_simp
  ultimately show ?thesis
    by blast
qed

section \<open>Properties of record linking\<close>

lemma keep_first_keys:
  "set (map fst (keep_first seen rs)) = fst ` set rs - set seen \<and> distinct (map fst (keep_first seen rs))"
  by (induction rs arbitrary: seen) (auto simp: image_iff)

lemma keep_first_subset: "set (keep_first seen rs) \<subseteq> set rs"
  by (induction rs arbitrary: seen) auto

lemma keep_first_length: "length (keep_first seen rs) \<le> length rs"
  by (induction rs arbitrary: seen) (auto simp: le_SucI)

lemma keep_first_map_of: "(k, p) \<in> set (keep_first seen rs) \<Longrightarrow> map_of rs k = Some p"
proof (induction rs arbitrary: seen)
  case Nil
  then show ?case by simp
next
  case (Cons r rs)
  show ?case
  proof (cases "fst r \<in> set seen")
    case True
    with Cons.prems have in_rest: "(k, p) \<in> set (keep_first seen rs)" by simp
    then have "k \<in> set (map fst (keep_first seen rs))" by force
    then have "k \<notin> set seen" using keep_first_keys[of seen rs] by blast
    with True have "k \<noteq> fst r" by auto
    with Cons.IH[OF in_rest] show ?thesis by (cases r) auto
  next
    case False
    show ?thesis
    proof (cases "(k, p) = r")
      case True
      then show ?thesis by auto
    next
      case neq: False
      with False Cons.prems have in_rest: "(k, p) \<in> set (keep_first (fst r # seen) rs)" by auto
      then have "k \<in> set (map fst (keep_first (fst r # seen) rs))" by force
      then have "k \<noteq> fst r" using keep_first_keys[of "fst r # seen" rs] by auto
      with Cons.IH[OF in_rest] show ?thesis by (cases r) auto
    qed
  qed
qed

lemma first_pos_Cons: "first_pos k (x # xs) = (if x = k then 0 else Suc (first_pos k xs))"
  by (simp add: first_pos_def)

lemma sorted_wrt_shift:
  assumes "sorted_wrt (<) (map (\<lambda>k. first_pos k xs) ks)" and "x \<notin> set ks"
  shows "sorted_wrt (<) (map (\<lambda>k. first_pos k (x # xs)) ks)"
proof -
  from assms(1) have "sorted_wrt (\<lambda>a b. first_pos a xs < first_pos b xs) ks"
    by (simp only: sorted_wrt_map)
  then have "sorted_wrt (\<lambda>a b. first_pos a (x # xs) < first_pos b (x # xs)) ks"
  proof (rule sorted_wrt_mono_rel[rotated])
    fix a b
    assume "a \<in> set ks" "b \<in> set ks" "first_pos a xs < first_pos b xs"
    with assms(2) show "first_pos a (x # xs) < first_pos b (x # xs)"
      by (auto simp: first_pos_Cons)
  qed
  then show ?thesis
    by (simp only: sorted_wrt_map)
qed

lemma keep_first_order:
  "sorted_wrt (<) (map (\<lambda>k. first_pos k (map fst rs)) (map fst (keep_first seen rs)))"
proof (induction rs arbitrary: seen)
  case Nil
  then show ?case by simp
next
  case (Cons r rs)
  show ?case
  proof (cases "fst r \<in> set seen")
    case True
    have "fst r \<notin> set (map fst (keep_first seen rs))"
      using keep_first_keys[of seen rs] True by blast
    from sorted_wrt_shift[OF Cons.IH[of seen] this] True show ?thesis by simp
  next
    case False
    let ?ks = "map fst (keep_first (fst r # seen) rs)"
    have notin: "fst r \<notin> set ?ks"
      using keep_first_keys[of "fst r # seen" rs] by auto
    from sorted_wrt_shift[OF Cons.IH[of "fst r # seen"] notin]
    have tail: "sorted_wrt (<) (map (\<lambda>k. first_pos k (fst r # map fst rs)) ?ks)" .
    have hd0: "first_pos (fst r) (fst r # map fst rs) = 0"
      by (simp add: first_pos_Cons)
    have pos: "\<forall>n\<in>set (map (\<lambda>k. first_pos k (fst r # map fst rs)) ?ks). 0 < n"
    proof
      fix n
      assume "n \<in> set (map (\<lambda>k. first_pos k (fst r # map fst rs)) ?ks)"
      then obtain k where "k \<in> set ?ks" and "n = first_pos k (fst r # map fst rs)"
        by auto
      with notin show "0 < n"
        by (auto simp: first_pos_Cons)
    qed
    have "map fst (keep_first seen (r # rs)) = fst r # ?ks"
      using False by simp
    then have "map (\<lambda>k. first_pos k (map fst (r # rs))) (map fst (keep_first seen (r # rs)))
        = 0 # map (\<lambda>k. first_pos k (fst r # map fst rs)) ?ks"
      using hd0 by simp
    with tail pos show ?thesis
      by simp
  qed
qed

lemma merge_keys:
  "set (map fst (rows (merge_on_asin l r))) = fst ` set (rows l) \<inter> fst ` set (rows r)"
  by (force simp: merge_on_asin_def)

lemma set_np_unique: "set (np_unique xs) = set xs"
  by (simp add: np_unique_def)

lemma first_pos_nth:
  assumes "distinct ks" and "m < length ks"
  shows "first_pos (ks ! m) ks = m"
proof -
  have "\<And>j. j < m \<Longrightarrow> ks ! j \<noteq> ks ! m"
    using assms by (simp add: nth_eq_iff_index_eq)
  then have "takeWhile (\<lambda>x. x \<noteq> ks ! m) ks = take m ks"
    using assms(2) by (intro takeWhile_eq_take_P_nth) auto
  then show ?thesis
    using assms(2) by (simp add: first_pos_def)
qed

lemma get_map_prefix:
  assumes "distinct (map fst rs)" and "m \<le> length rs"
  shows "fold (get_map_step rs) [0..<m] (Map.empty, Map.empty)
       = ((\<lambda>k. if k \<in> set (take m (map fst rs)) then Some (first_pos k (map fst rs)) else None),
          (\<lambda>i. if i < m then Some (fst (rs ! i)) else None))"
  using assms(2)
proof (induction m)
  case 0
  then show ?case by simp
next
  case (Suc m)
  then have m: "m < length rs" by simp
  have fp: "first_pos (fst (rs ! m)) (map fst rs) = m"
    using first_pos_nth[OF assms(1), of m] m by simp
  have tk: "set (take (Suc m) (map fst rs)) = insert (fst (rs ! m)) (set (take m (map fst rs)))"
    using m by (simp add: take_Suc_conv_app_nth)
  have a: "(\<lambda>k. if k \<in> set (take m (map fst rs)) then Some (first_pos k (map fst rs)) else None)
             (fst (rs ! m) \<mapsto> m)
         = (\<lambda>k. if k \<in> set (take (Suc m) (map fst rs)) then Some (first_pos k (map fst rs)) else None)"
    unfolding tk by (rule ext) (simp add: fp)
  have b: "(\<lambda>i. if i < m then Some (fst (rs ! i)) else None)(m \<mapsto> fst (rs ! m))
         = (\<lambda>i. if i < Suc m then Some (fst (rs ! i)) else None)"
    by (rule ext) (simp add: less_Suc_eq)
  have "fold (get_map_step rs) [0..<Suc m] (Map.empty, Map.empty)
      = get_map_step rs m (fold (get_map_step rs) [0..<m] (Map.empty, Map.empty))"
    by simp
  also have "\<dots> = get_map_step rs m
      ((\<lambda>k. if k \<in> set (take m (map fst rs)) then Some (first_pos k (map fst rs)) else None),
       (\<lambda>i. if i < m then Some (fst (rs ! i)) else None))"
    using Suc.IH m by simp
  also have "\<dots> = ((\<lambda>k. if k \<in> set (take (Suc m) (map fst rs))
                        then Some (first_pos k (map fst rs)) else None),
                   (\<lambda>i. if i < Suc m then Some (fst (rs ! i)) else None))"
    unfolding get_map_step_def prod.case a b ..
  finally show ?case .
qed

lemma get_map_eq:
  assumes "distinct (map fst (rows df))"
  shows "get_map df =
       ((\<lambda>k. if k \<in> fst ` set (rows df) then Some (first_pos k (map fst (rows df))) else None),
        (\<lambda>i. if i < length (rows df) then Some (fst (rows df ! i)) else None))"
  unfolding get_map_def using get_map_prefix[OF assms, of "length (rows df)"] by simp

lemma isin_rows: "rows (isin ks df) = filter (\<lambda>(k, a). k \<in> set ks) (rows df)"
  by (simp add: isin_def)

lemma map_fst_filter_key:
  "map fst (filter (\<lambda>(k, a). P k) rs) = filter P (map fst rs)"
  by (induction rs) auto

lemma distinct_length_le:
  assumes "distinct ks" and "set ks \<subseteq> set xs"
  shows "length ks \<le> length xs"
proof -
  have "length ks = card (set ks)" using assms(1) by (simp add: distinct_card)
  also have "\<dots> \<le> card (set xs)" using assms(2) by (simp add: card_mono)
  also have "\<dots> \<le> length xs" by (rule card_length)
  finally show ?thesis .
qed

lemma link_records_result:
  fixes df_qa df_review df_meta :: "'a frame"
  assumes cols: "set (meta_columns @ link_columns) \<subseteq> set (columns df_meta)"
  defines "kept \<equiv> filter (\<lambda>(k, a). k \<in> fst ` set (rows df_review)) (keep_first [] (rows df_meta))"
  shows "\<exists>l. link_records df_qa df_review df_meta = Inr l \<and>
     rows (df_meta_reduced l) = kept \<and>
     rows (df_review_reduced l) = filter (\<lambda>(k, a). k \<in> set (map fst kept)) (rows df_review) \<and>
     rows (df_qa_reduced l) = filter (\<lambda>(k, a). k \<in> set (map fst kept)) (rows df_qa) \<and>
     (asin2id l, id2asin l) = get_map \<lparr>columns = meta_columns @ link_columns, rows = kept\<rparr>"
proof -
  let ?dm = "(drop_duplicates df_meta)\<lparr>columns := meta_columns @ link_columns\<rparr>"
  let ?u = "np_unique (map fst (rows (merge_on_asin df_review ?dm)))"
  have sel: "select_columns (meta_columns @ link_columns) (drop_duplicates df_meta) = Inr ?dm"
    using cols by (simp add: select_columns_def drop_duplicates_def)
  have rows_dm: "rows ?dm = keep_first [] (rows df_meta)"
    by (simp add: drop_duplicates_def)
  have keys_dm: "fst ` set (rows ?dm) = fst ` set (rows df_meta)"
    using keep_first_keys[of "[]" "rows df_meta"] by (simp add: rows_dm)
  have u: "set ?u = fst ` set (rows df_review) \<inter> fst ` set (rows df_meta)"
    unfolding set_np_unique merge_keys keys_dm ..
  have sub: "set (keep_first [] (rows df_meta)) \<subseteq> set (rows df_meta)"
    by (rule keep_first_subset)
  have kept: "rows (isin ?u ?dm) = kept"
    unfolding isin_rows rows_dm kept_def u using sub
    by (intro filter_cong) (force simp: image_iff)+
  have setk: "set (map fst kept) = set ?u"
  proof -
    have "set (map fst kept) = {k \<in> fst ` set (keep_first [] (rows df_meta)). k \<in> fst ` set (rows df_review)}"
      unfolding kept_def map_fst_filter_key by auto
    also have "fst ` set (keep_first [] (rows df_meta)) = fst ` set (rows df_meta)"
      using keep_first_keys[of "[]" "rows df_meta"] by simp
    finally show ?thesis using u by auto
  qed
  have m: "isin ?u ?dm = \<lparr>columns = meta_columns @ link_columns, rows = kept\<rparr>"
    using kept by (simp add: isin_def drop_duplicates_def)
  obtain a b where ab: "get_map (isin ?u ?dm) = (a, b)"
    by (cases "get_map (isin ?u ?dm)")
  have "link_records df_qa df_review df_meta =
      Inr \<lparr>asin2id = a, id2asin = b, df_meta_reduced = isin ?u ?dm,
            df_review_reduced = isin ?u df_review, df_qa_reduced = isin ?u df_qa\<rparr>"
    unfolding link_records_def Let_def sel bind_err_def by (simp add: ab)
  moreover have "rows (isin ?u df_review)
      = filter (\<lambda>(k, a). k \<in> set (map fst kept)) (rows df_review)"
    unfolding isin_rows setk ..
  moreover have "rows (isin ?u df_qa) = filter (\<lambda>(k, a). k \<in> set (map fst kept)) (rows df_qa)"
    unfolding isin_rows setk ..
  ultimately show ?thesis
    using kept ab m by simp
qed


text \<open>
  C7.  Record linking keeps exactly the natural keys present in both the metadata and the
  review frame (the Q&A frame plays no part), each once, with the metadata row of its first
  occurrence; there are at most as many as metadata rows and as review rows; the keys stand in
  the order of their first occurrence in the metadata, and the key at position \<open>i\<close> gets the
  id \<open>i\<close>, so the two maps are inverse bijections between the keys and \<open>0..<n\<close>.  The review
  and Q&A frames are cut down to the rows of the kept keys.  The metadata frame must have the
  columns the code selects.
\<close>

theorem link_records_keeps_common_keys:
  fixes df_qa df_review df_meta :: "'a frame"
  assumes "set (meta_columns @ link_columns) \<subseteq> set (columns df_meta)"
  shows "\<exists>l. link_records df_qa df_review df_meta = Inr l \<and>
     (let keys = map fst (rows (df_meta_reduced l)) in
        set keys = fst ` set (rows df_meta) \<inter> fst ` set (rows df_review) \<and>
        distinct keys \<and>
        length keys \<le> min (length (rows df_meta)) (length (rows df_review)) \<and>
        (\<forall>(k, p) \<in> set (rows (df_meta_reduced l)). map_of (rows df_meta) k = Some p) \<and>
        sorted_wrt (<) (map (\<lambda>k. first_pos k (map fst (rows df_meta))) keys) \<and>
        map (id2asin l) [0..<length keys] = map Some keys \<and>
        map (asin2id l) keys = map Some [0..<length keys] \<and>
        dom (asin2id l) = set keys \<and>
        dom (id2asin l) = {..<length keys} \<and>
        rows (df_review_reduced l) = filter (\<lambda>(k, a). k \<in> set keys) (rows df_review) \<and>
        rows (df_qa_reduced l) = filter (\<lambda>(k, a). k \<in> set keys) (rows df_qa))"
proof -
  define kept where
    "kept = filter (\<lambda>(k, a). k \<in> fst ` set (rows df_review)) (keep_first [] (rows df_meta))"
  define keys where "keys = map fst kept"
  from link_records_result[OF assms, of df_qa df_review]
  obtain l where l: "link_records df_qa df_review df_meta = Inr l"
    and mr: "rows (df_meta_reduced l) = kept"
    and rr: "rows (df_review_reduced l) = filter (\<lambda>(k, a). k \<in> set keys) (rows df_review)"
    and qr: "rows (df_qa_reduced l) = filter (\<lambda>(k, a). k \<in> set keys) (rows df_qa)"
    and gm: "(asin2id l, id2asin l) = get_map \<lparr>columns = meta_columns @ link_columns, rows = kept\<rparr>"
    unfolding kept_def keys_def by blast
  have kf: "set (map fst (keep_first [] (rows df_meta))) = fst ` set (rows df_meta)"
    and kd: "distinct (map fst (keep_first [] (rows df_meta)))"
    using keep_first_keys[of "[]" "rows df_meta"] by simp_all
  have keys_filter:
    "keys = filter (\<lambda>k. k \<in> fst ` set (rows df_review)) (map fst (keep_first [] (rows df_meta)))"
    unfolding keys_def kept_def by (rule map_fst_filter_key)
  have 1: "set keys = fst ` set (rows df_meta) \<inter> fst ` set (rows df_review)"
    unfolding keys_filter using kf by auto
  have 2: "distinct keys"
    unfolding keys_filter using kd by simp
  have "length keys \<le> length (map fst (rows df_meta))"
    using 2 1 by (intro distinct_length_le) auto
  moreover have "length keys \<le> length (map fst (rows df_review))"
    using 2 1 by (intro distinct_length_le) auto
  ultimately have 3: "length keys \<le> min (length (rows df_meta)) (length (rows df_review))"
    by simp
  have 4: "\<forall>(k, p) \<in> set kept. map_of (rows df_meta) k = Some p"
    unfolding kept_def by (auto intro: keep_first_map_of)
  have 5: "sorted_wrt (<) (map (\<lambda>k. first_pos k (map fst (rows df_meta))) keys)"
  proof -
    have "sorted_wrt (\<lambda>a b. first_pos a (map fst (rows df_meta)) < first_pos b (map fst (rows df_meta)))
            (map fst (keep_first [] (rows df_meta)))"
      using keep_first_order[of "rows df_meta" "[]"] by (simp only: sorted_wrt_map)
    then have "sorted_wrt (\<lambda>a b. first_pos a (map fst (rows df_meta)) < first_pos b (map fst (rows df_meta)))
            keys"
      unfolding keys_filter by (rule sorted_wrt_filter)
    then show ?thesis by (simp only: sorted_wrt_map)
  qed
  have dk: "distinct (map fst (rows \<lparr>columns = meta_columns @ link_columns, rows = kept\<rparr>))"
    using 2 by (simp add: keys_def)
  have "get_map \<lparr>columns = meta_columns @ link_columns, rows = kept\<rparr> =
      ((\<lambda>k. if k \<in> set keys then Some (first_pos k keys) else None),
       (\<lambda>i. if i < length keys then Some (keys ! i) else None))"
    unfolding get_map_eq[OF dk] by (simp add: keys_def cong: if_cong)
  with gm have a2i: "asin2id l = (\<lambda>k. if k \<in> set keys then Some (first_pos k keys) else None)"
    and i2a: "id2asin l = (\<lambda>i. if i < length keys then Some (keys ! i) else None)"
    by simp_all
  have 6: "map (id2asin l) [0..<length keys] = map Some keys"
    by (rule nth_equalityI) (simp_all add: i2a)
  have 7: "map (asin2id l) keys = map Some [0..<length keys]"
    by (rule nth_equalityI) (simp_all add: a2i first_pos_nth[OF 2])
  have 8: "dom (asin2id l) = set keys"
    by (auto simp: a2i dom_def)
  have 9: "dom (id2asin l) = {..<length keys}"
    by (auto simp: i2a dom_def)
  have key_eq: "map fst (rows (df_meta_reduced l)) = keys"
    by (simp only: mr keys_def)
  show ?thesis
    apply (rule exI[of _ l])
    apply (unfold Let_def key_eq)
    apply (unfold mr)
    apply (intro conjI l 1 2 3 4 5 6 7 8 9 rr qr)
    done
qed

theorem link_records_keeps_common_keys_witness:
  "set (meta_columns @ link_columns) \<subseteq> set (columns example_meta) \<and>
   (\<exists>l. link_records example_qa example_review example_meta = Inr l \<and>
        set (map fst (rows (df_meta_reduced l))) = {''a'', ''b''} \<and>
        length (rows (df_meta_reduced l)) \<le> 4)"
proof -
  have h: "set (meta_columns @ link_columns) \<subseteq> set (columns example_meta)"
    by (simp add: example_meta_def)
  from link_records_keeps_common_keys[OF h, of example_qa example_review]
  obtain l where l: "link_records example_qa example_review example_meta = Inr l"
    and k: "set (map fst (rows (df_meta_reduced l)))
              = fst ` set (rows example_meta) \<inter> fst ` set (rows example_review)"
    and n: "length (map fst (rows (df_meta_reduced l)))
              \<le> min (length (rows example_meta)) (length (rows example_review))"
    unfolding Let_def by blast
  have "fst ` set (rows example_meta) \<inter> fst ` set (rows example_review) = {''a'', ''b''}"
    by (auto simp: example_meta_def example_review_def)
  with k have "set (map fst (rows (df_meta_reduced l))) = {''a'', ''b''}"
    by simp
  moreover from n have "length (rows (df_meta_reduced l)) \<le> 4"
    by (simp add: example_meta_def example_review_def)
  ultimately show ?thesis
    using h l by blast
qed

lemma select_categories_checked:
  assumes "''all'' \<notin> set categories"
  shows "select_categories categories =
     (if set categories \<subseteq> set COMMON then Inr (categories, categories) else Inl AssertionError)"
  using assms by (auto simp: select_categories_def)

text \<open>
  C9.  For a category list without \<open>"all"\<close>: when some category is outside \<open>COMMON\<close>,
  \<open>_process_raw\<close> fails on its \<open>assert\<close> (the specification's \<open>InvalidCategoryError\<close>), whatever
  is on disk and whatever the sources would deliver, so before any record is read; when all
  categories are in \<open>COMMON\<close>, the check passes and both category lists are the given one.
\<close>

theorem process_raw_checks_categories:
  assumes "''all'' \<notin> set categories"
  shows "(\<not> set categories \<subseteq> set COMMON \<longrightarrow> process_raw src categories = Inl AssertionError) \<and>
         (set categories \<subseteq> set COMMON \<longrightarrow>
            select_categories categories = Inr (categories, categories))"
  using select_categories_checked[OF assms] by (simp add: process_raw_def bind_err_def)

theorem process_raw_checks_categories_witness:
  "''all'' \<notin> set [''Electronics'', ''Books''] \<and> \<not> set [''Electronics'', ''Books''] \<subseteq> set COMMON \<and>
   process_raw offline_sources [''Electronics'', ''Books''] = Inl AssertionError \<and>
   ''all'' \<notin> set [''Electronics''] \<and> set [''Electronics''] \<subseteq> set COMMON \<and>
   select_categories [''Electronics''] = Inr ([''Electronics''], [''Electronics''])"
proof -
  have a: "''all'' \<notin> set [''Electronics'', ''Books'']" and b: "''all'' \<notin> set [''Electronics'']"
    by simp_all
  have c: "\<not> set [''Electronics'', ''Books''] \<subseteq> set COMMON"
    by (simp add: COMMON_def)
  have d: "set [''Electronics''] \<subseteq> set COMMON"
    by (simp add: COMMON_def)
  from process_raw_checks_categories[OF a, of offline_sources] c
  have "process_raw offline_sources [''Electronics'', ''Books''] = Inl AssertionError"
    by blast
  moreover from process_raw_checks_categories[OF b, of offline_sources] d
  have "select_categories [''Electronics''] = Inr ([''Electronics''], [''Electronics''])"
    by blast
  ultimately show ?thesis
    using a b c d by blast
qed

section \<open>Properties of rendering\<close>

lemma enrich_unbound: "enrich None info = Inl UnboundLocalError"
  by (simp add: enrich_def)

lemma getitem_unchanged:
  "getitem k idx =
     (if idx < length (node_info k) then Inr (register_node Node (node_info k ! idx), k)
      else Inl KeyError)"
  by (simp add: getitem_def enrich_unbound Let_def)


lemma map_of_fold_update:
  "map_of (fold (\<lambda>(key, v) n. AList.update key v n) info n) = map_of n ++ map_of (rev info)"
proof (induction info arbitrary: n)
  case Nil
  then show ?case by simp
next
  case (Cons p info)
  obtain key v where p: "p = (key, v)" by (cases p)
  show ?case
    by (auto simp: p Cons.IH update_conv' map_add_def fun_eq_iff split: option.splits)
qed

lemma map_of_rev_distinct: "distinct (map fst xs) \<Longrightarrow> map_of (rev xs) = map_of xs"
proof (induction xs)
  case Nil
  then show ?case by simp
next
  case (Cons p xs)
  obtain key v where p: "p = (key, v)" by (cases p)
  from Cons.prems have notin: "key \<notin> fst ` set xs" and d: "distinct (map fst xs)"
    by (auto simp: p)
  have "map_of xs key = None"
    using notin by (simp add: map_of_eq_None_iff)
  with Cons.IH[OF d] show ?case
    by (auto simp: p map_add_def fun_eq_iff split: option.splits)
qed

lemma map_of_register_node:
  assumes "distinct (map fst info)"
  shows "map_of (register_node Node info) = map_of info"
  using map_of_rev_distinct[OF assms]
  by (simp add: register_node_def Node_def map_of_fold_update)

lemma capped_entries_length:
  "capped_entries cap entry i xs = Inr es \<Longrightarrow>
     length es = min (length xs) (if int i > cap then 1 else nat (cap - int i) + 2)"
proof (induction xs arbitrary: i es)
  case Nil
  then show ?case by simp
next
  case (Cons x xs)
  from Cons.prems obtain e where e: "entry i x = Inr e"
    by (auto simp: bind_err_def split: sum.splits)
  show ?case
  proof (cases "int i > cap")
    case True
    with Cons.prems e show ?thesis by (auto simp: bind_err_def)
  next
    case False
    with Cons.prems e obtain es' where es': "capped_entries cap entry (Suc i) xs = Inr es'"
      and es: "es = e # es'"
      by (auto simp: bind_err_def split: sum.splits)
    have step: "(if int i > cap then 1 else nat (cap - int i) + 2)
        = Suc (if int (Suc i) > cap then 1 else nat (cap - int (Suc i)) + 2)"
      using False by (auto simp: nat_eq_iff)
    from Cons.IH[OF es'] es show ?thesis
      unfolding step by simp
  qed
qed



lemma collect_err_Inr: "collect_err (map Inr xs) = Inr xs"
  by (induction xs) auto

lemma collect_err_all:
  assumes "\<forall>x\<in>set xs. \<exists>y. f x = Inr y"
  shows "\<exists>ys. collect_err (map f xs) = Inr ys \<and> length ys = length xs"
  using assms by (induction xs) auto




















text \<open>
  C10.  For a node id in range, \<open>__getitem__\<close> returns a node object that carries exactly the
  attributes of \<open>node_info[id]\<close>, with their values, and leaves the knowledge base, so
  \<open>node_info[id]\<close>, as it was: the body of its \<open>try\<close> reads the local \<open>node\<close> before any
  assignment to it, fails with \<open>UnboundLocalError\<close>, and the \<open>except\<close> swallows it.
  (The record is a dict: its keys are distinct.)
\<close>

theorem getitem_carries_node_info_only:
  assumes "idx < length (node_info k)" and "distinct (map fst (node_info k ! idx))"
  shows "\<exists>n. getitem k idx = Inr (n, k) \<and> map_of n = map_of (node_info k ! idx) \<and>
             fst ` set n = fst ` set (node_info k ! idx) \<and>
             enrich None (node_info k ! idx) = Inl UnboundLocalError"
proof -
  let ?n = "register_node Node (node_info k ! idx)"
  have m: "map_of ?n = map_of (node_info k ! idx)"
    by (rule map_of_register_node[OF assms(2)])
  have "fst ` set ?n = dom (map_of ?n)"
    by (simp add: dom_map_of_conv_image_fst)
  also have "\<dots> = fst ` set (node_info k ! idx)"
    by (simp add: m dom_map_of_conv_image_fst)
  finally show ?thesis
    using assms(1) m by (simp add: getitem_unchanged enrich_unbound)
qed

theorem getitem_carries_node_info_only_witness:
  "0 < length (node_info example_kb) \<and> distinct (map fst (node_info example_kb ! 0)) \<and>
   (\<exists>n. getitem example_kb 0 = Inr (n, example_kb) \<and> map_of n ''dimensions'' = None \<and>
        map_of n ''weight'' = None \<and> map_of n ''title'' = Some (Scalar (SStr ''Tent'')))"
proof -
  have a: "0 < length (node_info example_kb)"
    by (simp add: example_kb_def)
  have t: "node_info example_kb ! 0 = tent"
    by (simp add: example_kb_def)
  have b: "distinct (map fst (node_info example_kb ! 0))"
    by (simp add: t tent_def)
  from getitem_carries_node_info_only[OF a b] obtain n
    where "getitem example_kb 0 = Inr (n, example_kb)" and "map_of n = map_of tent"
    unfolding t by blast
  moreover have "map_of tent ''dimensions'' = None" "map_of tent ''weight'' = None"
    "map_of tent ''title'' = Some (Scalar (SStr ''Tent''))"
    by (simp_all add: tent_def)
  ultimately show ?thesis
    using a b by auto
qed

text \<open>
  C1, on the code.  With \<open>max_entries = 1\<close> and a product of four reviews and four questions,
  \<open>get_doc_info\<close> shows three reviews and three questions, and so does \<open>get_chunk_info\<close>: each
  loop appends its entry before it tests \<open>i > max_entries\<close>, so it stops after the entry of
  index \<open>max_entries + 1\<close>, the \<open>(max_entries + 2)\<close>-th (lemma \<open>capped_entries_length\<close>).
\<close>

theorem capped_sections_show_cap_plus_two:
  "max_entries example_kb = 1 \<and>
   get_doc_info example_kb 0 False False =
     Inr (''- product: Tent\<newline>- brand: Acme\<newline>- dimensions: 2 x 3 in\<newline>- weight: 5 lb\<newline>''
          @ ''- description: A tent.\<newline>- features: \<newline>#1: light\<newline>''
          @ ''- reviews: \<newline>''
          @ ''#3:\<newline>summary: s3\<newline>text: '' @ DQ @ ''t3'' @ DQ @ NL
          @ ''#4:\<newline>summary: s4\<newline>text: '' @ DQ @ ''t4'' @ DQ @ NL
          @ ''#1:\<newline>summary: s1\<newline>text: '' @ DQ @ ''t1'' @ DQ @ NL
          @ ''- Q&A: \<newline>''
          @ ''#1:\<newline>question: '' @ DQ @ ''q1'' @ DQ @ ''\<newline>answer: '' @ DQ @ ''a1'' @ DQ @ NL
          @ ''#2:\<newline>question: '' @ DQ @ ''q2'' @ DQ @ ''\<newline>answer: '' @ DQ @ ''a2'' @ DQ @ NL
          @ ''#3:\<newline>question: '' @ DQ @ ''q3'' @ DQ @ ''\<newline>answer: '' @ DQ @ ''a3'' @ DQ @ NL) \<and>
   get_chunk_info example_kb 0 ''review'' =
     Inr (Scalar (SStr (
          ''The review '' @ DQ @ ''s3'' @ DQ @ ''states that '' @ DQ @ ''t3'' @ DQ @ ''. ''
          @ ''The review '' @ DQ @ ''s4'' @ DQ @ ''states that '' @ DQ @ ''t4'' @ DQ @ ''. ''
          @ ''The review '' @ DQ @ ''s1'' @ DQ @ ''states that '' @ DQ @ ''t1'' @ DQ @ ''. ''))) \<and>
   get_chunk_info example_kb 0 ''qa'' =
     Inr (Scalar (SStr (
          ''The question is '' @ DQ @ ''q1'' @ DQ @ '', and the answer is '' @ DQ @ ''a1'' @ DQ @ ''. ''
          @ ''The question is '' @ DQ @ ''q2'' @ DQ @ '', and the answer is '' @ DQ @ ''a2'' @ DQ @ ''. ''
          @ ''The question is '' @ DQ @ ''q3'' @ DQ @ '', and the answer is '' @ DQ @ ''a3'' @ DQ @ ''. '')))"
  by code_simp

text \<open>
  C5, on the code.  The feature list of the product \<open>lamp\<close> holds an entry with \<open>ASIN\<close> and an
  empty entry, so no entry remains; \<open>get_doc_info\<close> still writes the header line of the
  features section, since it drops the header only when the list itself is empty.
  \<open>get_chunk_info\<close> gives the empty string for the same list.
\<close>

theorem features_header_without_entries:
  "getattr (register_node Node lamp) ''feature'' = Inr (StrList [''ASIN: A1'', [] ]) \<and>
   get_doc_info example_kb 1 False False = Inr ''- product: Lamp\<newline>- features: \<newline>'' \<and>
   get_chunk_info example_kb 1 ''feature'' = Inr (Scalar (SStr []))"
  by code_simp




section \<open>Properties of \<open>post_process\<close>\<close>

subsection \<open>The inner loop of \<open>post_process\<close>\<close>

lemma add_meta_nodes_keeps:
  "edge_type_dict (add_meta_nodes lt cur t vals inds j us p) = edge_type_dict p"
  "node_type_dict (add_meta_nodes lt cur t vals inds j us p) = node_type_dict p"
  "node_types (add_meta_nodes lt cur t vals inds j us p) = node_types p"
  by (induction us arbitrary: j p) (simp_all add: Let_def)

lemma add_meta_nodes_node_info:
  "length (node_info p) = cur + j \<Longrightarrow>
   node_info (add_meta_nodes lt cur t vals inds j us p) =
     node_info p @ map (\<lambda>u. [(lt @ ''_name'', Scalar (SStr u))]) us"
  by (induction us arbitrary: j p) (simp_all add: Let_def set_node_def)

lemma zip_replicate_length: "zip ids (replicate (length ids) x) = map (\<lambda>i. (i, x)) ids"
  by (induction ids) simp_all

lemma add_meta_nodes_edges:
  "length (fst (edge_index p)) = length (snd (edge_index p)) \<Longrightarrow>
   length (snd (edge_index p)) = length (edge_types p) \<Longrightarrow>
   edges (add_meta_nodes lt cur t vals inds j us p) =
     edges p @ concat (map (\<lambda>(k, u). map (\<lambda>i. (i, cur + k, t)) (ids_of vals inds u))
                           (enumerate j us))"
proof (induction us arbitrary: j p)
  case Nil
  then show ?case by simp
next
  case (Cons u us)
  let ?ids = "ids_of vals inds u"
  let ?p = "p\<lparr>node_info := set_node (node_info p) (cur + j) [(lt @ ''_name'', Scalar (SStr u))],
               edge_index := (fst (edge_index p) @ ?ids,
                              snd (edge_index p) @ replicate (length ?ids) (cur + j)),
               edge_types := edge_types p @ replicate (length ?ids) t\<rparr>"
  have step: "edges ?p = edges p @ map (\<lambda>i. (i, cur + j, t)) ?ids"
    using Cons.prems by (simp add: edges_def zip_replicate_length)
  have "edges (add_meta_nodes lt cur t vals inds (Suc j) us ?p) =
          edges ?p @ concat (map (\<lambda>(k, u). map (\<lambda>i. (i, cur + k, t)) (ids_of vals inds u))
                           (enumerate (Suc j) us))"
    using Cons.prems by (intro Cons.IH) simp_all
  then show ?case
    by (simp add: Let_def step)
qed

lemma add_meta_nodes_aligned:
  "length (fst (edge_index p)) = length (snd (edge_index p)) \<Longrightarrow>
   length (snd (edge_index p)) = length (edge_types p) \<Longrightarrow>
   length (fst (edge_index (add_meta_nodes lt cur t vals inds j us p))) =
     length (snd (edge_index (add_meta_nodes lt cur t vals inds j us p))) \<and>
   length (snd (edge_index (add_meta_nodes lt cur t vals inds j us p))) =
     length (edge_types (add_meta_nodes lt cur t vals inds j us p))"
  by (induction us arbitrary: j p) (simp_all add: Let_def)

subsection \<open>Values and indices of a link type\<close>

lemma collect_err_list_all2:
  "collect_err (map f xs) = Inr ys \<Longrightarrow> list_all2 (\<lambda>x y. f x = Inr y) xs ys"
  by (induction xs arbitrary: ys) (auto split: sum.splits)

lemma zip_upt_nth: "zip [0..<length xs] xs = map (\<lambda>i. (i, xs ! i)) [0..<length xs]"
  by (intro nth_equalityI) auto

lemma link_indices_eq:
  "link_indices lt infos = filter (\<lambda>i. has_key lt (infos ! i)) [0..<length infos]"
  unfolding link_indices_def zip_upt_nth by (simp add: filter_map comp_def)

lemma filter_has_key:
  "filter (has_key lt) infos = map ((!) infos) (link_indices lt infos)"
proof -
  have "filter (has_key lt) (map ((!) infos) [0..<length infos]) =
        map ((!) infos) (link_indices lt infos)"
    unfolding link_indices_eq by (simp add: filter_map comp_def)
  then show ?thesis by (simp add: map_nth)
qed

lemma link_values_indices:
  assumes "link_values lt infos = Inr vs"
  shows "list_all2 (\<lambda>i v. \<exists>w. link_value lt (infos ! i) = Inr w \<and> v = np_str w)
           (link_indices lt infos) vs"
proof -
  from assms obtain ws where
    ws: "collect_err (map (\<lambda>i. link_value lt (infos ! i)) (link_indices lt infos)) = Inr ws"
    and vs: "vs = map np_str ws"
    by (auto simp: link_values_def filter_has_key comp_def bind_err_def split: sum.splits)
  from ws have "list_all2 (\<lambda>i w. link_value lt (infos ! i) = Inr w) (link_indices lt infos) ws"
    by (rule collect_err_list_all2)
  then show ?thesis
    unfolding vs list_all2_map2 by (rule list_all2_mono) simp
qed

lemma link_pair:
  assumes vs: "link_values lt infos = Inr vs"
    and idx: "idx < length infos"
    and b: "map_of (infos ! idx) lt = Some b"
  shows "\<exists>s. b = Scalar (SStr s) \<and>
             (np_str (process_brand s), idx) \<in> set (zip vs (link_indices lt infos))"
proof -
  let ?inds = "link_indices lt infos"
  have all2: "list_all2 (\<lambda>i v. \<exists>w. link_value lt (infos ! i) = Inr w \<and> v = np_str w) ?inds vs"
    using vs by (rule link_values_indices)
  have "idx \<in> set ?inds"
    using idx b by (simp add: link_indices_eq has_key_def)
  then obtain k where k: "k < length ?inds" "?inds ! k = idx"
    by (auto simp: in_set_conv_nth)
  have len: "length ?inds = length vs"
    using all2 by (rule list_all2_lengthD)
  obtain w where "link_value lt (infos ! idx) = Inr w" and w: "vs ! k = np_str w"
    using list_all2_nthD[OF all2 k(1)] k(2) by auto
  then have "brand_of b = Inr w"
    using b by (simp add: link_value_def)
  then obtain s where s: "b = Scalar (SStr s)" "vs ! k = np_str (process_brand s)"
    using w by (auto simp: brand_of_def split: attr.splits scalar.splits)
  have "(vs ! k, ?inds ! k) \<in> set (zip vs ?inds)"
    using k(1) len by (auto simp: set_zip)
  then show ?thesis using s k(2) by auto
qed

lemma link_indices_distinct: "distinct (link_indices lt infos)"
  by (simp add: link_indices_eq)

lemma link_values_length:
  "link_values lt infos = Inr vs \<Longrightarrow> length vs = length (link_indices lt infos)"
  using link_values_indices[of lt infos vs] by (simp add: list_all2_lengthD)

subsection \<open>The edges that leave one entity\<close>

lemma filter_snd_single:
  "distinct (map snd xs) \<Longrightarrow> (a, b) \<in> set xs \<Longrightarrow> filter (\<lambda>(v, i). i = b) xs = [(a, b)]"
proof (induction xs)
  case Nil
  then show ?case by simp
next
  case (Cons x xs)
  show ?case
  proof (cases "x = (a, b)")
    case True
    then have "b \<notin> snd ` set xs" using Cons.prems by auto
    then have "filter (\<lambda>(v, i). i = b) xs = []"
      by (force simp: filter_empty_conv)
    then show ?thesis using True by simp
  next
    case False
    then have "(a, b) \<in> set xs" using Cons.prems by auto
    moreover have "snd x \<noteq> b"
    proof
      assume "snd x = b"
      moreover have "b \<in> snd ` set xs" using \<open>(a, b) \<in> set xs\<close> by force
      ultimately show False using Cons.prems(1) by simp
    qed
    ultimately show ?thesis using Cons by (auto split: prod.splits)
  qed
qed

lemma ids_of_filter:
  assumes "distinct (map snd (zip vals inds))" and "(v, idx) \<in> set (zip vals inds)"
  shows "filter (\<lambda>i. i = idx) (ids_of vals inds u) = (if v = u then [idx] else [])"
proof -
  have "filter (\<lambda>i. i = idx) (ids_of vals inds u) =
        map snd (filter (\<lambda>(w, i). w = u) (filter (\<lambda>(w, i). i = idx) (zip vals inds)))"
    unfolding ids_of_def filter_map
    by (simp add: comp_def case_prod_unfold conj_commute)
  also have "\<dots> = (if v = u then [idx] else [])"
    unfolding filter_snd_single[OF assms] by simp
  finally show ?thesis .
qed

lemma concat_no_hit:
  "v \<notin> set us \<Longrightarrow>
   concat (map (\<lambda>(k, u). if v = u then [g k] else []) (enumerate j us)) = []"
  by (induction us arbitrary: j) simp_all

lemma concat_single_hit:
  "distinct us \<Longrightarrow> v \<in> set us \<Longrightarrow>
   \<exists>j0<length us. us ! j0 = v \<and>
     concat (map (\<lambda>(k, u). if v = u then [g k] else []) (enumerate j us)) = [g (j + j0)]"
proof (induction us arbitrary: j)
  case Nil
  then show ?case by simp
next
  case (Cons u us)
  show ?case
  proof (cases "v = u")
    case True
    then have "v \<notin> set us" using Cons.prems by simp
    then have "concat (map (\<lambda>(k, u). if v = u then [g k] else [])
                 (enumerate (Suc j) us)) = []"
      by (rule concat_no_hit)
    then show ?thesis using True by (intro exI[of _ 0]) simp
  next
    case False
    then have "distinct us" "v \<in> set us" using Cons.prems by auto
    from Cons.IH[OF this, of "Suc j"] obtain j0 where
      j0: "j0 < length us" "us ! j0 = v"
        "concat (map (\<lambda>(k, u). if v = u then [g k] else [])
           (enumerate (Suc j) us)) = [g (Suc j + j0)]"
      by blast
    then show ?thesis using False by (intro exI[of _ "Suc j0"]) simp
  qed
qed

subsection \<open>One link type\<close>

lemma add_link_type_Inr:
  assumes "add_link_type n_e n_n i lt p = Inr q"
  shows "\<exists>vals. link_values lt (node_info p) = Inr vals \<and>
           edge_type_dict q = AList.update (n_e + i) (''has_'' @ lt) (edge_type_dict p) \<and>
           node_type_dict q = AList.update (n_n + i) lt (node_type_dict p) \<and>
           node_info q = node_info p @ map (\<lambda>u. [(lt @ ''_name'', Scalar (SStr u))]) (np_unique vals) \<and>
           node_types q = node_types p @ replicate (length (np_unique vals)) (n_n + i)"
proof -
  from assms obtain vals where vals: "link_values lt (node_info p) = Inr vals"
    by (auto simp: add_link_type_def bind_err_def split: sum.splits)
  let ?p1 = "p\<lparr>node_type_dict := AList.update (n_n + i) lt (node_type_dict p),
               edge_type_dict := AList.update (n_e + i) (''has_'' @ lt) (edge_type_dict p)\<rparr>"
  let ?p2 = "add_meta_nodes lt (length (node_info p)) (i + n_e) vals
               (link_indices lt (node_info p)) 0 (np_unique vals) ?p1"
  have q: "q = ?p2\<lparr>node_types := node_types ?p2 @ replicate (length (np_unique vals)) (n_n + i)\<rparr>"
    using assms vals by (simp add: add_link_type_def bind_err_def Let_def)
  have "node_info ?p2 = node_info ?p1 @ map (\<lambda>u. [(lt @ ''_name'', Scalar (SStr u))]) (np_unique vals)"
    by (rule add_meta_nodes_node_info) simp
  then show ?thesis
    using vals by (intro exI[of _ vals]) (simp add: q add_meta_nodes_keeps)
qed

lemma add_link_type_edges:
  assumes "add_link_type n_e n_n i lt p = Inr q"
    and "link_values lt (node_info p) = Inr vals"
    and "length (fst (edge_index p)) = length (snd (edge_index p))"
    and "length (snd (edge_index p)) = length (edge_types p)"
  shows "edges q = edges p @
           concat (map (\<lambda>(k, u). map (\<lambda>j. (j, length (node_info p) + k, i + n_e))
                                   (ids_of vals (link_indices lt (node_info p)) u))
                       (enumerate 0 (np_unique vals)))"
    and "length (fst (edge_index q)) = length (snd (edge_index q))"
    and "length (snd (edge_index q)) = length (edge_types q)"
proof -
  let ?p1 = "p\<lparr>node_type_dict := AList.update (n_n + i) lt (node_type_dict p),
               edge_type_dict := AList.update (n_e + i) (''has_'' @ lt) (edge_type_dict p)\<rparr>"
  let ?p2 = "add_meta_nodes lt (length (node_info p)) (i + n_e) vals
               (link_indices lt (node_info p)) 0 (np_unique vals) ?p1"
  have q: "q = ?p2\<lparr>node_types := node_types ?p2 @ replicate (length (np_unique vals)) (n_n + i)\<rparr>"
    using assms(1,2) by (simp add: add_link_type_def bind_err_def Let_def)
  have e1: "edges ?p1 = edges p" by (simp add: edges_def)
  have eq: "edges q = edges ?p2" unfolding q by (simp add: edges_def)
  have al: "length (fst (edge_index ?p1)) = length (snd (edge_index ?p1))"
    "length (snd (edge_index ?p1)) = length (edge_types ?p1)"
    using assms(3,4) by simp_all
  show "edges q = edges p @
           concat (map (\<lambda>(k, u). map (\<lambda>j. (j, length (node_info p) + k, i + n_e))
                                   (ids_of vals (link_indices lt (node_info p)) u))
                       (enumerate 0 (np_unique vals)))"
    unfolding eq add_meta_nodes_edges[OF al] e1 ..
  show "length (fst (edge_index q)) = length (snd (edge_index q))"
    "length (snd (edge_index q)) = length (edge_types q)"
    using add_meta_nodes_aligned[OF al] unfolding q by simp_all
qed

lemma np_unique_distinct: "distinct (np_unique xs)"
  by (simp add: np_unique_def)

lemma old_edges_unlabelled:
  assumes "list_all (\<lambda>t. t < n) (edge_types p)"
    and "\<And>t. t < n \<Longrightarrow> lab t \<noteq> Some l"
  shows "filter (\<lambda>(s, d, t). s = idx \<and> lab t = Some l) (edges p) = []"
proof -
  have "t < n" if "(s, d, t) \<in> set (edges p)" for s d t
  proof -
    have "t \<in> set (edge_types p)"
      using that unfolding edges_def by (meson set_zip_rightD)
    then show ?thesis using assms(1) by (simp add: list_all_iff)
  qed
  then show ?thesis using assms(2) by (auto simp: filter_empty_conv)
qed

lemma new_edges_of_entity:
  assumes d: "distinct (map snd (zip vals inds))" and m: "(v, idx) \<in> set (zip vals inds)"
    and uq: "distinct us" "v \<in> set us"
    and lab: "lab t = Some l"
  shows "\<exists>j0<length us. us ! j0 = v \<and>
           filter (\<lambda>(s, d, t). s = idx \<and> lab t = Some l)
             (concat (map (\<lambda>(k, u). map (\<lambda>j. (j, cur + k, t)) (ids_of vals inds u))
                          (enumerate 0 us))) = [(idx, cur + j0, t)]"
proof -
  have "filter (\<lambda>(s, d, t). s = idx \<and> lab t = Some l)
             (concat (map (\<lambda>(k, u). map (\<lambda>j. (j, cur + k, t)) (ids_of vals inds u))
                          (enumerate 0 us))) =
        concat (map (\<lambda>(k, u). map (\<lambda>j. (j, cur + k, t))
                                 (filter (\<lambda>j. j = idx) (ids_of vals inds u)))
                    (enumerate 0 us))"
    by (simp add: filter_concat comp_def case_prod_unfold filter_map lab)
  also have "\<dots> = concat (map (\<lambda>(k, u). if v = u then [(idx, cur + k, t)] else [])
                             (enumerate 0 us))"
    unfolding ids_of_filter[OF d m]
    by (intro arg_cong[where f = concat] map_cong) auto
  finally have eq: "filter (\<lambda>(s, d, t). s = idx \<and> lab t = Some l)
             (concat (map (\<lambda>(k, u). map (\<lambda>j. (j, cur + k, t)) (ids_of vals inds u))
                          (enumerate 0 us))) =
         concat (map (\<lambda>(k, u). if v = u then [(idx, cur + k, t)] else []) (enumerate 0 us))" .
  from concat_single_hit[OF uq, of "\<lambda>k. (idx, cur + k, t)" 0]
  show ?thesis unfolding eq by simp
qed

subsection \<open>When \<open>post_process\<close> returns\<close>

lemma link_values_returns:
  assumes "string_valued (lt # rest) infos"
  shows "\<exists>vals. link_values lt infos = Inr vals"
proof -
  have "\<forall>info\<in>set (filter (has_key lt) infos). \<exists>y. link_value lt info = Inr y"
  proof
    fix info
    assume "info \<in> set (filter (has_key lt) infos)"
    then obtain v where info: "info \<in> set infos" and v: "map_of info lt = Some v"
      by (auto simp: has_key_def)
    have "case map_of info lt of None \<Rightarrow> True | Some v \<Rightarrow> \<not> isl (brand_of v)"
      using assms info by (simp add: string_valued_def list_all_iff)
    then have "\<not> isl (brand_of v)"
      using v by simp
    then obtain y where "brand_of v = Inr y"
      by (cases "brand_of v") auto
    then show "\<exists>y. link_value lt info = Inr y"
      using v by (simp add: link_value_def)
  qed
  from collect_err_all[OF this] show ?thesis
    unfolding link_values_def by (auto simp: bind_err_def)
qed

lemma post_loop_returns:
  "string_valued kinds (node_info p) \<Longrightarrow> \<exists>out. post_loop n_e n_n i kinds p = Inr out"
proof (induction kinds arbitrary: i p)
  case Nil
  then show ?case by simp
next
  case (Cons lt rest)
  from link_values_returns[OF Cons.prems] obtain vals where
    vals: "link_values lt (node_info p) = Inr vals" by blast
  then obtain q where q: "add_link_type n_e n_n i lt p = Inr q"
    by (simp add: add_link_type_def bind_err_def Let_def)
  from add_link_type_Inr[OF q] obtain vals' where
    ni: "node_info q = node_info p @ map (\<lambda>u. [(lt @ ''_name'', Scalar (SStr u))]) (np_unique vals')"
    by blast
  have "string_valued rest (node_info q)"
    using Cons.prems unfolding ni
    by (auto simp: string_valued_def list_all_iff brand_of_def)
  from Cons.IH[OF this, of "Suc i"] show ?case
    using q by (simp add: bind_err_def)
qed

lemma post_process_returns:
  "string_valued kinds (node_info raw) \<Longrightarrow> \<exists>out. post_process raw kinds = Inr out"
  unfolding post_process_def by (rule post_loop_returns)


lemma post_process_single:
  "post_process raw [lt] = Inr out \<Longrightarrow>
   add_link_type (length (edge_type_dict raw)) (length (node_type_dict raw)) 0 lt raw = Inr out"
  by (auto simp: post_process_def bind_err_def split: sum.splits)


subsection \<open>The brand edge of an entity\<close>

lemma np_str_id_iff: "np_str x = x \<longleftrightarrow> \<not> suffix [CHR 0x00] x"
proof -
  have "np_str x = x \<longleftrightarrow> dropWhile (\<lambda>c. c = CHR 0x00) (rev x) = rev x"
    unfolding np_str_def by (metis rev_rev_ident)
  also have "\<dots> \<longleftrightarrow> (x = [] \<or> last x \<noteq> CHR 0x00)"
    by (simp add: dropWhile_eq_self_iff hd_rev)
  also have "\<dots> \<longleftrightarrow> \<not> suffix [CHR 0x00] x"
    by (cases x rule: rev_cases) (auto simp: suffix_def)
  finally show ?thesis .
qed

text \<open>
  C3, as amended.  Let \<open>post_process\<close> return on a graph as \<open>_process_raw\<close> builds it, with the
  one link type \<open>brand\<close>, and let no edge type of that graph be labelled \<open>has_brand\<close>.  Then
  every original entity whose node record has a \<open>brand\<close> attribute has exactly one outgoing
  edge whose type is labelled \<open>has_brand\<close>; the attribute is a string, the destination is a
  node appended after the original ones, and its record is \<open>{"brand_name": v}\<close> with \<open>v\<close>
  the \<open>_process_brand\<close> value of that attribute as the numpy array of the values gives it
  back, without the NUL characters at its end.  So \<open>v\<close> is the \<open>_process_brand\<close> value itself
  exactly when that value does not end with a NUL character.
\<close>

theorem post_process_brand_edge:
  assumes out: "post_process raw [''brand''] = Inr out"
    and ok: "raw_graph_ok raw"
    and fresh: "''has_brand'' \<notin> snd ` set (edge_type_dict raw)"
    and idx: "idx < length (node_info raw)"
    and b: "map_of (node_info raw ! idx) ''brand'' = Some b"
  shows "\<exists>s d. b = Scalar (SStr s) \<and> out_edges out idx ''has_brand'' = [d] \<and>
           length (node_info raw) \<le> d \<and> d < length (node_info out) \<and>
           node_info out ! d = [(''brand_name'', Scalar (SStr (np_str (process_brand s))))] \<and>
           (np_str (process_brand s) = process_brand s
              \<longleftrightarrow> \<not> suffix [CHR 0x00] (process_brand s))"
proof -
  let ?n_e = "length (edge_type_dict raw)"
  let ?n_n = "length (node_type_dict raw)"
  let ?cur = "length (node_info raw)"
  let ?inds = "link_indices ''brand'' (node_info raw)"
  let ?lab = "map_of (edge_type_dict out)"
  have step: "add_link_type ?n_e ?n_n 0 ''brand'' raw = Inr out"
    using out by (rule post_process_single)
  from add_link_type_Inr[OF step] obtain vals where
    vals: "link_values ''brand'' (node_info raw) = Inr vals"
    and etd: "edge_type_dict out = AList.update ?n_e ''has_brand'' (edge_type_dict raw)"
    and ni: "node_info out = node_info raw @
               map (\<lambda>u. [(''brand_name'', Scalar (SStr u))]) (np_unique vals)"
    by auto
  have al: "length (fst (edge_index raw)) = length (snd (edge_index raw))"
    "length (snd (edge_index raw)) = length (edge_types raw)"
    and types: "list_all (\<lambda>t. t < ?n_e) (edge_types raw)"
    and cont: "contiguous (edge_type_dict raw)"
    using ok by (simp_all add: raw_graph_ok_def)
  have edges_out: "edges out = edges raw @
           concat (map (\<lambda>(k, u). map (\<lambda>j. (j, ?cur + k, ?n_e)) (ids_of vals ?inds u))
                       (enumerate 0 (np_unique vals)))"
    using add_link_type_edges(1)[OF step vals al] by simp
  have lab_new: "?lab ?n_e = Some ''has_brand''"
    by (simp add: etd update_conv')
  have lab_old: "?lab t \<noteq> Some ''has_brand''" if "t < ?n_e" for t
  proof
    assume "?lab t = Some ''has_brand''"
    then have "map_of (edge_type_dict raw) t = Some ''has_brand''"
      using that by (simp add: etd update_conv')
    then have "(t, ''has_brand'') \<in> set (edge_type_dict raw)"
      by (rule map_of_SomeD)
    then show False using fresh by force
  qed
  have old: "filter (\<lambda>(s, d, t). s = idx \<and> ?lab t = Some ''has_brand'') (edges raw) = []"
    using types lab_old by (rule old_edges_unlabelled)
  from link_pair[OF vals idx b] obtain s where
    s: "b = Scalar (SStr s)" and m: "(np_str (process_brand s), idx) \<in> set (zip vals ?inds)"
    by blast
  have len: "length vals = length ?inds"
    using vals by (rule link_values_length)
  have d: "distinct (map snd (zip vals ?inds))"
    using len by (simp add: link_indices_distinct)
  have mem: "np_str (process_brand s) \<in> set (np_unique vals)"
    using m by (auto simp: set_np_unique dest: set_zip_leftD)
  from new_edges_of_entity[where lab = ?lab and t = ?n_e and l = "''has_brand''" and cur = ?cur,
      OF d m np_unique_distinct mem lab_new]
  obtain j0 where j0: "j0 < length (np_unique vals)" "np_unique vals ! j0 = np_str (process_brand s)"
    and new: "filter (\<lambda>(s, d, t). s = idx \<and> ?lab t = Some ''has_brand'')
             (concat (map (\<lambda>(k, u). map (\<lambda>j. (j, ?cur + k, ?n_e)) (ids_of vals ?inds u))
                          (enumerate 0 (np_unique vals)))) = [(idx, ?cur + j0, ?n_e)]"
    by blast
  have oe: "out_edges out idx ''has_brand'' = [?cur + j0]"
    unfolding out_edges_def edges_out filter_append old new by simp
  have nth: "node_info out ! (?cur + j0) =
               [(''brand_name'', Scalar (SStr (np_str (process_brand s))))]"
    using j0 by (simp add: ni nth_append)
  have lt: "?cur + j0 < length (node_info out)"
    using j0(1) by (simp add: ni)
  show ?thesis
    using s oe nth lt np_str_id_iff[of "process_brand s"]
    by (intro exI[of _ s] exI[of _ "?cur + j0"]) simp
qed

theorem post_process_brand_edge_witness:
  "raw_graph_ok example_raw \<and> ''has_brand'' \<notin> snd ` set (edge_type_dict example_raw) \<and>
   3 < length (node_info example_raw) \<and>
   map_of (node_info example_raw ! 3) ''brand'' = Some (Scalar (SStr ''by Acme'')) \<and>
   (\<exists>out d. post_process example_raw [''brand''] = Inr out \<and>
      out_edges out 3 ''has_brand'' = [d] \<and> 4 \<le> d \<and> d < length (node_info out) \<and>
      node_info out ! d = [(''brand_name'', Scalar (SStr ''Acme''))])"
proof -
  have ok: "raw_graph_ok example_raw"
    by code_simp
  have fresh: "''has_brand'' \<notin> snd ` set (edge_type_dict example_raw)"
    by (simp add: example_raw_def)
  have idx: "3 < length (node_info example_raw)"
    by (simp add: example_raw_def)
  have b: "map_of (node_info example_raw ! 3) ''brand'' = Some (Scalar (SStr ''by Acme''))"
    by (simp add: example_raw_def)
  have "string_valued [''brand''] (node_info example_raw)"
    by code_simp
  from post_process_returns[OF this] obtain out where
    out: "post_process example_raw [''brand''] = Inr out" by blast
  from post_process_brand_edge[OF out ok fresh idx b] obtain s d where
    s: "Scalar (SStr ''by Acme'') = Scalar (SStr s)"
    and d: "out_edges out 3 ''has_brand'' = [d]" "length (node_info example_raw) \<le> d"
      "d < length (node_info out)"
      "node_info out ! d = [(''brand_name'', Scalar (SStr (np_str (process_brand s))))]"
    by blast
  have "np_str (process_brand ''by Acme'') = ''Acme''"
    by code_simp
  then have "node_info out ! d = [(''brand_name'', Scalar (SStr ''Acme''))]"
    using s d(4) by simp
  moreover have "4 \<le> d" using d(2) by (simp add: example_raw_def)
  ultimately show ?thesis
    using ok fresh idx b out d(1,3) by blast
qed

text \<open>
  C3, on the code.  The two products of \<open>nul_raw\<close> have the brands \<open>Acme\<close> and \<open>Acme\<close>
  followed by a NUL character, which \<open>_process_brand\<close> keeps.  \<open>post_process\<close> returns, and
  both products get their one \<open>has_brand\<close> edge to the same new node, whose \<open>brand_name\<close> is
  \<open>Acme\<close>: for the second product it is not the \<open>_process_brand\<close> value of its brand.
\<close>

theorem post_process_brand_name_drops_nul:
  "raw_graph_ok nul_raw \<and> ''has_brand'' \<notin> snd ` set (edge_type_dict nul_raw) \<and>
   1 < length (node_info nul_raw) \<and>
   map_of (node_info nul_raw ! 1) ''brand'' = Some (Scalar (SStr (''Acme'' @ [CHR 0x00]))) \<and>
   process_brand (''Acme'' @ [CHR 0x00]) = ''Acme'' @ [CHR 0x00] \<and>
   (case post_process nul_raw [''brand''] of
      Inl e \<Rightarrow> False
    | Inr out \<Rightarrow>
        out_edges out 0 ''has_brand'' = [2] \<and> out_edges out 1 ''has_brand'' = [2] \<and>
        length (node_info out) = 3 \<and>
        node_info out ! 2 = [(''brand_name'', Scalar (SStr ''Acme''))] \<and>
        node_info out ! 2 \<noteq> [(''brand_name'', Scalar (SStr (process_brand (''Acme'' @ [CHR 0x00]))))])"
  by code_simp

subsection \<open>Type ids\<close>

lemma update_next_key:
  assumes "distinct (map fst d)" and "set (map fst d) = {..<n}"
  shows "distinct (map fst (AList.update n v d))"
    and "set (map fst (AList.update n v d)) = {..<Suc n}"
    and "map_of (AList.update n v d) n = Some v"
    and "\<And>k. k < n \<Longrightarrow> map_of (AList.update n v d) k = map_of d k"
proof -
  show "distinct (map fst (AList.update n v d))"
    using assms(1) by (rule distinct_update)
  have "fst ` set (AList.update n v d) = {n} \<union> fst ` set d"
    by (rule dom_update)
  then show "set (map fst (AList.update n v d)) = {..<Suc n}"
    using assms(2) by (auto simp: lessThan_Suc)
  show "map_of (AList.update n v d) n = Some v"
    by (simp add: update_conv')
  show "\<And>k. k < n \<Longrightarrow> map_of (AList.update n v d) k = map_of d k"
    by (simp add: update_conv')
qed

lemma post_loop_edge_type_dict:
  assumes "post_loop n_e n_n i kinds p = Inr out"
    and "distinct (map fst (edge_type_dict p))"
    and "set (map fst (edge_type_dict p)) = {..<n_e + i}"
  shows "distinct (map fst (edge_type_dict out)) \<and>
         set (map fst (edge_type_dict out)) = {..<n_e + i + length kinds} \<and>
         (\<forall>k<n_e + i. map_of (edge_type_dict out) k = map_of (edge_type_dict p) k) \<and>
         (\<forall>j<length kinds. map_of (edge_type_dict out) (n_e + i + j) = Some (''has_'' @ kinds ! j))"
  using assms
proof (induction kinds arbitrary: i p)
  case Nil
  then show ?case by simp
next
  case (Cons lt rest)
  from Cons.prems(1) obtain q where
    q: "add_link_type n_e n_n i lt p = Inr q" and rest: "post_loop n_e n_n (Suc i) rest q = Inr out"
    by (auto simp: bind_err_def split: sum.splits)
  from add_link_type_Inr[OF q]
  have etd: "edge_type_dict q = AList.update (n_e + i) (''has_'' @ lt) (edge_type_dict p)"
    by auto
  note u = update_next_key[OF Cons.prems(2,3), where v = "''has_'' @ lt", folded etd]
  have ih: "distinct (map fst (edge_type_dict out)) \<and>
         set (map fst (edge_type_dict out)) = {..<n_e + Suc i + length rest} \<and>
         (\<forall>k<n_e + Suc i. map_of (edge_type_dict out) k = map_of (edge_type_dict q) k) \<and>
         (\<forall>j<length rest. map_of (edge_type_dict out) (n_e + Suc i + j) = Some (''has_'' @ rest ! j))"
    using u(1,2) by (intro Cons.IH[OF rest]) simp_all
  have old: "\<forall>k<n_e + i. map_of (edge_type_dict out) k = map_of (edge_type_dict p) k"
    using ih u(4) by simp
  have new: "map_of (edge_type_dict out) (n_e + i + j) = Some (''has_'' @ (lt # rest) ! j)"
    if "j < length (lt # rest)" for j
  proof (cases j)
    case 0
    then show ?thesis using ih u(3) by simp
  next
    case (Suc j')
    then show ?thesis using ih that by simp
  qed
  show ?case using ih old new by simp
qed

lemma post_loop_node_type_dict:
  assumes "post_loop n_e n_n i kinds p = Inr out"
    and "distinct (map fst (node_type_dict p))"
    and "set (map fst (node_type_dict p)) = {..<n_n + i}"
  shows "distinct (map fst (node_type_dict out)) \<and>
         set (map fst (node_type_dict out)) = {..<n_n + i + length kinds} \<and>
         (\<forall>k<n_n + i. map_of (node_type_dict out) k = map_of (node_type_dict p) k) \<and>
         (\<forall>j<length kinds. map_of (node_type_dict out) (n_n + i + j) = Some (kinds ! j))"
  using assms
proof (induction kinds arbitrary: i p)
  case Nil
  then show ?case by simp
next
  case (Cons lt rest)
  from Cons.prems(1) obtain q where
    q: "add_link_type n_e n_n i lt p = Inr q" and rest: "post_loop n_e n_n (Suc i) rest q = Inr out"
    by (auto simp: bind_err_def split: sum.splits)
  from add_link_type_Inr[OF q]
  have ntd: "node_type_dict q = AList.update (n_n + i) lt (node_type_dict p)"
    by auto
  note u = update_next_key[OF Cons.prems(2,3), where v = lt, folded ntd]
  have ih: "distinct (map fst (node_type_dict out)) \<and>
         set (map fst (node_type_dict out)) = {..<n_n + Suc i + length rest} \<and>
         (\<forall>k<n_n + Suc i. map_of (node_type_dict out) k = map_of (node_type_dict q) k) \<and>
         (\<forall>j<length rest. map_of (node_type_dict out) (n_n + Suc i + j) = Some (rest ! j))"
    using u(1,2) by (intro Cons.IH[OF rest]) simp_all
  have old: "\<forall>k<n_n + i. map_of (node_type_dict out) k = map_of (node_type_dict p) k"
    using ih u(4) by simp
  have new: "map_of (node_type_dict out) (n_n + i + j) = Some ((lt # rest) ! j)"
    if "j < length (lt # rest)" for j
  proof (cases j)
    case 0
    then show ?thesis using ih u(3) by simp
  next
    case (Suc j')
    then show ?thesis using ih that by simp
  qed
  show ?case using ih old new by simp
qed

lemma post_loop_nodes:
  assumes "post_loop n_e n_n i kinds p = Inr out"
  shows "\<exists>infos tys. node_info out = node_info p @ infos \<and> node_types out = node_types p @ tys \<and>
           list_all2 (\<lambda>info ty. \<exists>j<length kinds. ty = n_n + i + j \<and>
                        (\<exists>v. info = [(kinds ! j @ ''_name'', Scalar (SStr v))])) infos tys"
  using assms
proof (induction kinds arbitrary: i p)
  case Nil
  then show ?case by simp
next
  case (Cons lt rest)
  from Cons.prems(1) obtain q where
    q: "add_link_type n_e n_n i lt p = Inr q" and rest: "post_loop n_e n_n (Suc i) rest q = Inr out"
    by (auto simp: bind_err_def split: sum.splits)
  let ?R = "\<lambda>info ty. \<exists>j<length (lt # rest). ty = n_n + i + j \<and>
                        (\<exists>v. info = [((lt # rest) ! j @ ''_name'', Scalar (SStr v))])"
  from add_link_type_Inr[OF q] obtain vals where
    ni: "node_info q = node_info p @ map (\<lambda>u. [(lt @ ''_name'', Scalar (SStr u))]) (np_unique vals)"
    and nt: "node_types q = node_types p @ replicate (length (np_unique vals)) (n_n + i)"
    by auto
  from Cons.IH[OF rest] obtain infos tys where
    io: "node_info out = node_info q @ infos" and ty: "node_types out = node_types q @ tys"
    and r: "list_all2 (\<lambda>info ty. \<exists>j<length rest. ty = n_n + Suc i + j \<and>
                        (\<exists>v. info = [(rest ! j @ ''_name'', Scalar (SStr v))])) infos tys"
    by blast
  have first: "list_all2 ?R (map (\<lambda>u. [(lt @ ''_name'', Scalar (SStr u))]) (np_unique vals))
                 (replicate (length (np_unique vals)) (n_n + i))"
    unfolding list_all2_conv_all_nth by (auto intro!: exI[of _ 0])
  have second: "list_all2 ?R infos tys"
    using r
  proof (rule list_all2_mono)
    fix info ty
    assume "\<exists>j<length rest. ty = n_n + Suc i + j \<and>
              (\<exists>v. info = [(rest ! j @ ''_name'', Scalar (SStr v))])"
    then obtain j v where "j < length rest" "ty = n_n + Suc i + j"
      "info = [(rest ! j @ ''_name'', Scalar (SStr v))]" by blast
    then show "?R info ty" by (intro exI[of _ "Suc j"]) simp
  qed
  have "list_all2 ?R (map (\<lambda>u. [(lt @ ''_name'', Scalar (SStr u))]) (np_unique vals) @ infos)
          (replicate (length (np_unique vals)) (n_n + i) @ tys)"
    using first second by (rule list_all2_appendI)
  then show ?case
    unfolding io ty ni nt
    by (intro exI[of _ "map (\<lambda>u. [(lt @ ''_name'', Scalar (SStr u))]) (np_unique vals) @ infos"]
              exI[of _ "replicate (length (np_unique vals)) (n_n + i) @ tys"]) simp
qed

lemma contiguousI:
  assumes "distinct (map fst d)" and "set (map fst d) = {..<n}"
  shows "contiguous d" and "length d = n"
proof -
  have "length d = card (set (map fst d))"
    using distinct_card[OF assms(1)] by simp
  then show "length d = n" using assms(2) by simp
  then show "contiguous d" using assms by (simp add: contiguous_def)
qed

text \<open>
  C8.  Let \<open>post_process\<close> return on a graph as \<open>_process_raw\<close> builds it, with an ordered
  list of link types.  Then the link type at position \<open>i\<close> gets the node-type id
  \<open>len(node_type_dict) + i\<close>, labelled with the link type, and the edge-type id
  \<open>len(edge_type_dict) + i\<close>, labelled \<open>"has_" + link_type\<close>, both counted before the call; both
  dictionaries have the keys \<open>0..<n\<close>, each once, and keep their former entries; the former node
  records and node types stay in place, every node has a node type, and every node past the
  former ones has the node type of one of the link types and the single attribute
  \<open>link_type + "_name"\<close>.
\<close>

theorem post_process_type_ids:
  assumes out: "post_process raw kinds = Inr out"
    and ok: "raw_graph_ok raw"
  shows "contiguous (node_type_dict out) \<and> contiguous (edge_type_dict out) \<and>
         length (node_type_dict out) = length (node_type_dict raw) + length kinds \<and>
         length (edge_type_dict out) = length (edge_type_dict raw) + length kinds \<and>
         (\<forall>i<length kinds.
            map_of (node_type_dict out) (length (node_type_dict raw) + i) = Some (kinds ! i) \<and>
            map_of (edge_type_dict out) (length (edge_type_dict raw) + i)
              = Some (''has_'' @ kinds ! i)) \<and>
         (\<forall>k<length (node_type_dict raw).
            map_of (node_type_dict out) k = map_of (node_type_dict raw) k) \<and>
         (\<forall>k<length (edge_type_dict raw).
            map_of (edge_type_dict out) k = map_of (edge_type_dict raw) k) \<and>
         take (length (node_info raw)) (node_info out) = node_info raw \<and>
         take (length (node_info raw)) (node_types out) = node_types raw \<and>
         length (node_types out) = length (node_info out) \<and>
         (\<forall>n. length (node_info raw) \<le> n \<and> n < length (node_info out) \<longrightarrow>
            (\<exists>i<length kinds. node_types out ! n = length (node_type_dict raw) + i \<and>
               (\<exists>v. node_info out ! n = [(kinds ! i @ ''_name'', Scalar (SStr v))])))"
proof -
  let ?n_e = "length (edge_type_dict raw)"
  let ?n_n = "length (node_type_dict raw)"
  have loop: "post_loop ?n_e ?n_n 0 kinds raw = Inr out"
    using out by (simp add: post_process_def)
  have ce: "distinct (map fst (edge_type_dict raw))" "set (map fst (edge_type_dict raw)) = {..<?n_e + 0}"
    and cn: "distinct (map fst (node_type_dict raw))" "set (map fst (node_type_dict raw)) = {..<?n_n + 0}"
    and len: "length (node_types raw) = length (node_info raw)"
    using ok by (simp_all add: raw_graph_ok_def contiguous_def)
  note e = post_loop_edge_type_dict[OF loop ce]
  note n = post_loop_node_type_dict[OF loop cn]
  have e1: "contiguous (edge_type_dict out)" "length (edge_type_dict out) = ?n_e + length kinds"
    using contiguousI[of "edge_type_dict out" "?n_e + length kinds"] e by simp_all
  have n1: "contiguous (node_type_dict out)" "length (node_type_dict out) = ?n_n + length kinds"
    using contiguousI[of "node_type_dict out" "?n_n + length kinds"] n by simp_all
  have new: "\<forall>i<length kinds.
            map_of (node_type_dict out) (?n_n + i) = Some (kinds ! i) \<and>
            map_of (edge_type_dict out) (?n_e + i) = Some (''has_'' @ kinds ! i)"
    using e n by simp
  have old_n: "\<forall>k<?n_n. map_of (node_type_dict out) k = map_of (node_type_dict raw) k"
    using n by simp
  have old_e: "\<forall>k<?n_e. map_of (edge_type_dict out) k = map_of (edge_type_dict raw) k"
    using e by simp
  from post_loop_nodes[OF loop] obtain infos tys where
    io: "node_info out = node_info raw @ infos" and ty: "node_types out = node_types raw @ tys"
    and r: "list_all2 (\<lambda>info ty. \<exists>j<length kinds. ty = ?n_n + 0 + j \<and>
                        (\<exists>v. info = [(kinds ! j @ ''_name'', Scalar (SStr v))])) infos tys"
    by blast
  have l2: "length infos = length tys"
    using r by (rule list_all2_lengthD)
  have t1: "take (length (node_info raw)) (node_info out) = node_info raw"
    by (simp add: io)
  have t2: "take (length (node_info raw)) (node_types out) = node_types raw"
    by (simp add: ty len)
  have t3: "length (node_types out) = length (node_info out)"
    by (simp add: io ty len l2)
  have syn: "\<forall>n. length (node_info raw) \<le> n \<and> n < length (node_info out) \<longrightarrow>
            (\<exists>i<length kinds. node_types out ! n = ?n_n + i \<and>
               (\<exists>v. node_info out ! n = [(kinds ! i @ ''_name'', Scalar (SStr v))]))"
  proof (intro allI impI)
    fix n
    assume n: "length (node_info raw) \<le> n \<and> n < length (node_info out)"
    let ?m = "n - length (node_info raw)"
    have m: "?m < length infos" using n by (auto simp: io)
    from list_all2_nthD[OF r m]
    have "\<exists>j<length kinds. tys ! ?m = ?n_n + j \<and>
            (\<exists>v. infos ! ?m = [(kinds ! j @ ''_name'', Scalar (SStr v))])"
      by simp
    moreover have "node_types out ! n = tys ! ?m" "node_info out ! n = infos ! ?m"
      using n by (simp_all add: io ty len nth_append)
    ultimately show "\<exists>i<length kinds. node_types out ! n = ?n_n + i \<and>
               (\<exists>v. node_info out ! n = [(kinds ! i @ ''_name'', Scalar (SStr v))])"
      by simp
  qed
  show ?thesis
    using e1 n1 new old_n old_e t1 t2 t3 syn by (intro conjI)
qed

theorem post_process_type_ids_witness:
  "raw_graph_ok example_raw \<and>
   (\<exists>out. post_process example_raw [''brand'', ''asin''] = Inr out \<and>
      contiguous (node_type_dict out) \<and> contiguous (edge_type_dict out) \<and>
      length (node_type_dict out) = 3 \<and> length (edge_type_dict out) = 4 \<and>
      map_of (node_type_dict out) 1 = Some ''brand'' \<and>
      map_of (edge_type_dict out) 2 = Some ''has_brand'' \<and>
      map_of (node_type_dict out) 2 = Some ''asin'' \<and>
      map_of (edge_type_dict out) 3 = Some ''has_asin'' \<and>
      map_of (node_type_dict out) 0 = Some ''product'' \<and>
      length (node_types out) = length (node_info out))"
proof -
  have ok: "raw_graph_ok example_raw"
    by code_simp
  have "string_valued [''brand'', ''asin''] (node_info example_raw)"
    by code_simp
  from post_process_returns[OF this] obtain out where
    out: "post_process example_raw [''brand'', ''asin''] = Inr out" by blast
  have n: "length (node_type_dict example_raw) = 1" "length (edge_type_dict example_raw) = 2"
    "map_of (node_type_dict example_raw) 0 = Some ''product''"
    by (simp_all add: example_raw_def)
  note t = post_process_type_ids[OF out ok, unfolded n]
  have c: "contiguous (node_type_dict out)" "contiguous (edge_type_dict out)"
    "length (node_types out) = length (node_info out)"
    using t by blast+
  have l: "length (node_type_dict out) = 3" "length (edge_type_dict out) = 4"
    using t by simp_all
  have all: "\<forall>i<length [''brand'', ''asin''].
            map_of (node_type_dict out) (1 + i) = Some ([''brand'', ''asin''] ! i) \<and>
            map_of (edge_type_dict out) (2 + i) = Some (''has_'' @ [''brand'', ''asin''] ! i)"
    using t by blast
  have a0: "map_of (node_type_dict out) 1 = Some ''brand''"
    "map_of (edge_type_dict out) 2 = Some ''has_brand''"
    using all[rule_format, of 0] by simp_all
  have a1: "map_of (node_type_dict out) 2 = Some ''asin''"
    "map_of (edge_type_dict out) 3 = Some ''has_asin''"
    using all[rule_format, of 1] by (simp_all add: numeral_2_eq_2 numeral_3_eq_3)
  have "\<forall>k<1. map_of (node_type_dict out) k = map_of (node_type_dict example_raw) k"
    using t by blast
  then have b: "map_of (node_type_dict out) 0 = Some ''product''"
    using n(3) by simp
  show ?thesis
    using ok out c l a0 a1 b by blast
qed

end
